theory Spec2Isabelle
  imports Main "HOL-Library.Sublist"
begin

chapter \<open>The model\<close>

section \<open>JavaScript strings and thrown errors\<close>

text \<open>
  A JavaScript string is a sequence of code units. A \<^typ>\<open>char\<close> of the model stands for
  one code unit, so \<^const>\<open>length\<close> is the source's \<open>.length\<close>; the model covers the
  code units below 256.

  \<open>String.prototype.trim\<close> and the regular-expression class \<open>\s\<close> remove the same
  characters: tab, line feed, vertical tab, form feed, carriage return, space and the
  no-break space (the other members of the class lie beyond code unit 255).
\<close>

definition is_js_whitespace :: "char \<Rightarrow> bool" where
  "is_js_whitespace c \<longleftrightarrow>
     c \<in> set [CHR 0x09, CHR 0x0A, CHR 0x0B, CHR 0x0C, CHR 0x0D, CHR 0x20, CHR 0xA0]"

definition trim :: "string \<Rightarrow> string" where
  "trim s = rev (dropWhile is_js_whitespace (rev (dropWhile is_js_whitespace s)))"

text \<open>
  \<open>String.prototype.toUpperCase\<close>. Upper-casing leaves the range of \<^typ>\<open>char\<close>: the
  micro sign (code unit \<open>0xB5\<close>) becomes the Greek capital letter mu (\<open>0x39C\<close>) and \<open>y\<close> with
  diaeresis (\<open>0xFF\<close>) becomes \<open>0x178\<close>; and it can make the string longer: the sharp s
  (\<open>0xDF\<close>) becomes \<open>SS\<close>. The letters \<open>a\<close> to \<open>z\<close> and the letters from \<open>0xE0\<close> to \<open>0xFE\<close>
  (but not the division sign \<open>0xF7\<close>) move down by \<open>0x20\<close>; every other code unit below 256
  stays. So the upper-cased string is given as the list of its code units, which are
  numbers; \<open>code_units\<close> gives the code units of a string of the model.
\<close>

definition code_units :: "string \<Rightarrow> nat list" where
  "code_units s = map of_char s"

definition toUpperCase_unit :: "char \<Rightarrow> nat list" where
  "toUpperCase_unit c =
     (let n = of_char c :: nat in
      if 0x61 \<le> n \<and> n \<le> 0x7A then [n - 0x20]
      else if n = 0xB5 then [0x39C]
      else if n = 0xDF then [0x53, 0x53]
      else if 0xE0 \<le> n \<and> n \<le> 0xFE \<and> n \<noteq> 0xF7 then [n - 0x20]
      else if n = 0xFF then [0x178]
      else [n])"

definition toUpperCase :: "string \<Rightarrow> nat list" where
  "toUpperCase s = concat (map toUpperCase_unit s)"

text \<open>\<open>s.includes(t)\<close>: some position of \<open>s\<close> starts an occurrence of \<open>t\<close>.\<close>

fun str_includes :: "'a list \<Rightarrow> 'a list \<Rightarrow> bool" where
  "str_includes [] t = (t = [])"
| "str_includes (c # cs) t = (take (length t) (c # cs) = t \<or> str_includes cs t)"

text \<open>\<open>xs.join(sep)\<close> on an array of strings.\<close>

fun join :: "string list \<Rightarrow> string \<Rightarrow> string" where
  "join [] sep = []"
| "join [x] sep = x"
| "join (x # y # ys) sep = x @ sep @ join (y # ys) sep"

text \<open>
  \<open>String.prototype.substring(start, end)\<close> clamps both arguments to the range
  \<open>0 .. length\<close> and swaps them when the first exceeds the second. Numbers used as
  indices are modelled as \<^typ>\<open>int\<close>.
\<close>

definition substring :: "string \<Rightarrow> int \<Rightarrow> int \<Rightarrow> string" where
  "substring s start end =
     (let len = int (length s);
          finalStart = min (max start 0) len;
          finalEnd = min (max end 0) len;
          from = min finalStart finalEnd;
          to = max finalStart finalEnd
      in take (nat (to - from)) (drop (nat from) s))"

text \<open>The decimal text of a natural number, as a template literal prints it.\<close>

fun decimal :: "nat \<Rightarrow> string" where
  "decimal n =
     (if n < 10 then [''0123456789'' ! n]
      else decimal (n div 10) @ [''0123456789'' ! (n mod 10)])"

text \<open>
  Thrown values. The source distinguishes its own \<open>OllamaConnectionError\<close>, the built-in
  \<open>TypeError\<close>, and every other instance of \<open>Error\<close> (a plain \<open>Error\<close>, a
  \<open>SyntaxError\<close>, ...); each carries its message.
\<close>

datatype js_error =
    OllamaConnectionError string
  | TypeError string
  | OtherError string

fun message :: "js_error \<Rightarrow> string" where
  "message (OllamaConnectionError m) = m"
| "message (TypeError m) = m"
| "message (OtherError m) = m"

fun is_OllamaConnectionError :: "js_error \<Rightarrow> bool" where
  "is_OllamaConnectionError (OllamaConnectionError m) = True"
| "is_OllamaConnectionError e = False"

fun is_TypeError :: "js_error \<Rightarrow> bool" where
  "is_TypeError (TypeError m) = True"
| "is_TypeError e = False"

section \<open>JSON values and \<open>JSON.parse\<close>\<close>

text \<open>
  The value that \<open>JSON.parse\<close> builds, as a tree. A number keeps its lexeme (JavaScript
  turns it into a double, a function of the lexeme); an object keeps its members in the
  order of the text.
\<close>

datatype json =
    JNull
  | JBool bool
  | JNumber string
  | JString string
  | JArray "json list"
  | JObject "(string \<times> json) list"

fun isArray :: "json \<Rightarrow> bool" where
  "isArray (JArray xs) = True"
| "isArray v = False"

subsection \<open>Tokens\<close>

datatype token =
    TLBracket | TRBracket | TLBrace | TRBrace | TComma | TColon
  | TTrue | TFalse | TNull
  | TString string
  | TNumber string

text \<open>The JSON grammar allows only tab, line feed, carriage return and space between tokens.\<close>

definition is_json_ws :: "char \<Rightarrow> bool" where
  "is_json_ws c \<longleftrightarrow> c \<in> set [CHR 0x09, CHR 0x0A, CHR 0x0D, CHR 0x20]"

definition is_digit :: "char \<Rightarrow> bool" where
  "is_digit c \<longleftrightarrow> c \<in> set ''0123456789''"

definition simple_escape :: "char \<Rightarrow> char option" where
  "simple_escape =
     map_of [(CHR 0x22, CHR 0x22), (CHR 0x5C, CHR 0x5C), (CHR ''/'', CHR ''/''),
             (CHR ''b'', CHR 0x08), (CHR ''f'', CHR 0x0C), (CHR ''n'', CHR 0x0A),
             (CHR ''r'', CHR 0x0D), (CHR ''t'', CHR 0x09)]"

definition hex_digit_value :: "char \<Rightarrow> nat option" where
  "hex_digit_value = map_of (zip ''0123456789abcdef'' [0..<16] @ zip ''ABCDEF'' [10..<16])"

text \<open>
  A \<open>\uXXXX\<close> escape denotes the code unit with that number. One beyond 255 has no
  \<^typ>\<open>char\<close>: a text with such an escape is outside the model, and the lexer gives no
  tokens for it. The test \<open>wide_escape_free\<close> holds for the texts that are inside the model
  in this respect: whatever follows a backslash and the letter \<open>u\<close> begins with two zeros.
  For these texts a failure of the lexer is a \<open>SyntaxError\<close> of \<open>JSON.parse\<close>.
\<close>

fun wide_escape_free :: "string \<Rightarrow> bool" where
  "wide_escape_free (c # d # cs) =
     ((c \<noteq> CHR 0x5C \<or> d \<noteq> CHR ''u'' \<or> take 2 cs = ''00'') \<and> wide_escape_free (d # cs))"
| "wide_escape_free cs = True"

fun unicode_escape :: "string \<Rightarrow> char option" where
  "unicode_escape [a, b, c, d] =
     (case (hex_digit_value a, hex_digit_value b, hex_digit_value c, hex_digit_value d) of
        (Some w, Some x, Some y, Some z) \<Rightarrow>
          (let n = ((w * 16 + x) * 16 + y) * 16 + z
           in if n < 256 then Some (char_of n) else None)
      | _ \<Rightarrow> None)"
| "unicode_escape cs = None"

text \<open>
  The rest of a string token after its opening quote: the decoded characters and the
  input that follows the closing quote. Control characters must be escaped.
\<close>

fun lex_string :: "string \<Rightarrow> (string \<times> string) option" where
  "lex_string [] = None"
| "lex_string (c # cs) =
     (if c = CHR 0x22 then Some ([], cs)
      else if c = CHR 0x5C then
        (case cs of
           [] \<Rightarrow> None
         | e # cs' \<Rightarrow>
             if e = CHR ''u'' then
               (case unicode_escape (take 4 cs') of
                  None \<Rightarrow> None
                | Some ch \<Rightarrow> map_option (apfst ((#) ch)) (lex_string (drop 4 cs')))
             else
               (case simple_escape e of
                  None \<Rightarrow> None
                | Some ch \<Rightarrow> map_option (apfst ((#) ch)) (lex_string cs')))
      else if (of_char c :: nat) < 32 then None
      else map_option (apfst ((#) c)) (lex_string cs))"

text \<open>
  A number token: an optional minus, an integer part without a leading zero, an optional
  fraction and an optional exponent. Each function returns the lexeme read so far and
  the input after it.
\<close>

definition lex_exp :: "string \<Rightarrow> string \<Rightarrow> (string \<times> string) option" where
  "lex_exp acc cs =
     (case cs of
        [] \<Rightarrow> Some (acc, [])
      | e # r \<Rightarrow>
          if e = CHR ''e'' \<or> e = CHR ''E'' then
            (let (sg, r') = (case r of
                               [] \<Rightarrow> ([], [])
                             | s # r'' \<Rightarrow> if s = CHR ''+'' \<or> s = CHR ''-'' then ([s], r'')
                                          else ([], r))
             in if takeWhile is_digit r' = [] then None
                else Some (acc @ e # sg @ takeWhile is_digit r', dropWhile is_digit r'))
          else Some (acc, cs))"

definition lex_frac :: "string \<Rightarrow> string \<Rightarrow> (string \<times> string) option" where
  "lex_frac acc cs =
     (case cs of
        [] \<Rightarrow> Some (acc, [])
      | d # r \<Rightarrow>
          if d = CHR ''.'' then
            (if takeWhile is_digit r = [] then None
             else lex_exp (acc @ d # takeWhile is_digit r) (dropWhile is_digit r))
          else lex_exp acc cs)"

definition lex_int :: "string \<Rightarrow> string \<Rightarrow> (string \<times> string) option" where
  "lex_int acc cs =
     (case cs of
        [] \<Rightarrow> None
      | d # r \<Rightarrow>
          if d = CHR ''0'' then lex_frac (acc @ [d]) r
          else if is_digit d then
            lex_frac (acc @ d # takeWhile is_digit r) (dropWhile is_digit r)
          else None)"

definition lex_number :: "string \<Rightarrow> (string \<times> string) option" where
  "lex_number cs =
     (case cs of
        [] \<Rightarrow> None
      | c # r \<Rightarrow> if c = CHR ''-'' then lex_int [c] r else lex_int [] cs)"

lemma lex_string_shorter: "lex_string cs = Some (s, rest) \<Longrightarrow> length rest < length cs"
proof (induction cs arbitrary: s rest rule: lex_string.induct)
  case 1
  then show ?case by simp
next
  case (2 c cs)
  show ?case
  proof (cases "c = CHR 0x22")
    case True
    with "2.prems" show ?thesis by simp
  next
    case notq: False
    show ?thesis
    proof (cases "c = CHR 0x5C")
      case True
      with notq "2.prems" obtain e cs' where cs: "cs = e # cs'"
        by (cases cs) auto
      show ?thesis
      proof (cases "e = CHR ''u''")
        case u: True
        with True notq cs "2.prems" obtain ch s' where
          "unicode_escape (take 4 cs') = Some ch" "lex_string (drop 4 cs') = Some (s', rest)"
          by (auto split: option.splits)
        with "2.IH"(1)[OF notq True cs u] have "length rest < length (drop 4 cs')" by simp
        with cs show ?thesis by simp
      next
        case nu: False
        with True notq cs "2.prems" obtain ch s' where
          "simple_escape e = Some ch" "lex_string cs' = Some (s', rest)"
          by (auto split: option.splits)
        with "2.IH"(2)[OF notq True cs nu] have "length rest < length cs'" by simp
        with cs show ?thesis by simp
      qed
    next
      case nb: False
      with notq "2.prems" obtain s' where "lex_string cs = Some (s', rest)"
        by (auto split: if_splits)
      with "2.IH"(3)[OF notq nb] "2.prems" notq nb have "length rest < length cs"
        by (auto split: if_splits)
      then show ?thesis by simp
    qed
  qed
qed

lemma lex_exp_shorter: "lex_exp acc cs = Some (l, rest) \<Longrightarrow> length rest \<le> length cs"
  by (auto simp: lex_exp_def split: list.splits if_splits prod.splits
      intro: le_trans[OF length_dropWhile_le])

lemma lex_frac_shorter: "lex_frac acc cs = Some (l, rest) \<Longrightarrow> length rest \<le> length cs"
  by (auto simp: lex_frac_def split: list.splits if_splits
      dest!: lex_exp_shorter intro: le_trans[OF _ length_dropWhile_le] le_SucI)

lemma lex_int_shorter: "lex_int acc cs = Some (l, rest) \<Longrightarrow> length rest < length cs"
  by (auto simp: lex_int_def less_Suc_eq_le split: list.splits if_splits
      dest!: lex_frac_shorter intro: le_trans[OF _ length_dropWhile_le])

lemma lex_number_shorter: "lex_number cs = Some (l, rest) \<Longrightarrow> length rest < length cs"
  by (auto simp: lex_number_def split: list.splits if_splits
      dest!: lex_int_shorter)

definition starts_with :: "string \<Rightarrow> string \<Rightarrow> bool" where
  "starts_with s lit \<longleftrightarrow> take (length lit) s = lit"

definition punctuation :: "char \<Rightarrow> token option" where
  "punctuation =
     map_of [(CHR ''['', TLBracket), (CHR '']'', TRBracket), (CHR ''{'', TLBrace),
             (CHR ''}'', TRBrace), (CHR '','', TComma), (CHR '':'', TColon)]"

function tokenize :: "string \<Rightarrow> token list option" where
  "tokenize [] = Some []"
| "tokenize (c # cs) =
     (if is_json_ws c then tokenize cs
      else
        (case punctuation c of
           Some t \<Rightarrow> map_option ((#) t) (tokenize cs)
         | None \<Rightarrow>
             if c = CHR 0x22 then
               (case lex_string cs of
                  None \<Rightarrow> None
                | Some (s, rest) \<Rightarrow> map_option ((#) (TString s)) (tokenize rest))
             else if c = CHR ''-'' \<or> is_digit c then
               (case lex_number (c # cs) of
                  None \<Rightarrow> None
                | Some (l, rest) \<Rightarrow> map_option ((#) (TNumber l)) (tokenize rest))
             else if starts_with (c # cs) ''true'' then
               map_option ((#) TTrue) (tokenize (drop 3 cs))
             else if starts_with (c # cs) ''false'' then
               map_option ((#) TFalse) (tokenize (drop 4 cs))
             else if starts_with (c # cs) ''null'' then
               map_option ((#) TNull) (tokenize (drop 3 cs))
             else None))"
  by pat_completeness auto
termination
proof (relation "measure length", goal_cases)
  case (3 c cs x2 x y)
  then show ?case using lex_string_shorter[of cs x y] by simp
next
  case (4 c cs x2 x y)
  then show ?case using lex_number_shorter[of "c # cs" x y] by simp
qed simp_all

subsection \<open>Values\<close>

text \<open>
  Recursive descent over the tokens; each function returns what it parsed and the tokens
  after it. \<open>parse_elements\<close> reads \<open>value (, value)* ]\<close> and \<open>parse_members\<close> reads
  \<open>string : value (, string : value)* }\<close>. The comparisons of lengths only record that
  a value consumes tokens.
\<close>

function (sequential) parse_value :: "token list \<Rightarrow> (json \<times> token list) option"
  and parse_elements :: "token list \<Rightarrow> (json list \<times> token list) option"
  and parse_members :: "token list \<Rightarrow> ((string \<times> json) list \<times> token list) option"
where
  "parse_value (TNull # ts) = Some (JNull, ts)"
| "parse_value (TTrue # ts) = Some (JBool True, ts)"
| "parse_value (TFalse # ts) = Some (JBool False, ts)"
| "parse_value (TString s # ts) = Some (JString s, ts)"
| "parse_value (TNumber l # ts) = Some (JNumber l, ts)"
| "parse_value (TLBracket # TRBracket # ts) = Some (JArray [], ts)"
| "parse_value (TLBracket # ts) = map_option (apfst JArray) (parse_elements ts)"
| "parse_value (TLBrace # TRBrace # ts) = Some (JObject [], ts)"
| "parse_value (TLBrace # ts) = map_option (apfst JObject) (parse_members ts)"
| "parse_value ts = None"
| "parse_elements ts =
     (case parse_value ts of
        None \<Rightarrow> None
      | Some (v, rest) \<Rightarrow>
          (case rest of
             TRBracket # rest' \<Rightarrow> Some ([v], rest')
           | TComma # rest' \<Rightarrow>
               (if length rest' < length ts
                then map_option (apfst ((#) v)) (parse_elements rest')
                else None)
           | _ \<Rightarrow> None))"
| "parse_members (TString k # TColon # ts) =
     (case parse_value ts of
        None \<Rightarrow> None
      | Some (v, rest) \<Rightarrow>
          (case rest of
             TRBrace # rest' \<Rightarrow> Some ([(k, v)], rest')
           | TComma # rest' \<Rightarrow>
               (if length rest' < length ts
                then map_option (apfst ((#) (k, v))) (parse_members rest')
                else None)
           | _ \<Rightarrow> None))"
| "parse_members ts = None"
  by pat_completeness auto
termination
  by (relation "measure (\<lambda>x. case x of
                   Inl ts \<Rightarrow> 2 * length ts
                 | Inr (Inl ts) \<Rightarrow> 2 * length ts + 1
                 | Inr (Inr ts) \<Rightarrow> 2 * length ts + 1)")
     auto

text \<open>
  \<open>JSON.parse(text)\<close>: the value of the text. The result \<open>None\<close> is a \<open>SyntaxError\<close> of
  JavaScript when the text is \<open>wide_escape_free\<close>; otherwise the text may be one that the
  model cannot read.
\<close>

definition JSON_parse :: "string \<Rightarrow> json option" where
  "JSON_parse s =
     (case tokenize s of
        None \<Rightarrow> None
      | Some ts \<Rightarrow>
          (case parse_value ts of
             Some (v, []) \<Rightarrow> Some v
           | _ \<Rightarrow> None))"

section \<open>The language-model service (services/geminiService.ts)\<close>

subsection \<open>\<open>safeJsonParse\<close>\<close>

text \<open>
  \<open>s.replace(/^lit\s*/, '')\<close> for a literal \<open>lit\<close>: when the string starts with the
  literal, the literal and the white space after it are removed.
\<close>

definition replace_leading :: "string \<Rightarrow> string \<Rightarrow> string" where
  "replace_leading lit s =
     (if take (length lit) s = lit
      then dropWhile is_js_whitespace (drop (length lit) s)
      else s)"

text \<open>
  \<open>s.replace(/\s*```$/, '')\<close>: when the string ends with three backticks, they and
  the white space before them are removed (the leftmost match takes all of that white
  space).
\<close>

definition replace_trailing_fence :: "string \<Rightarrow> string" where
  "replace_trailing_fence s =
     (if take 3 (rev s) = ''```''
      then rev (dropWhile is_js_whitespace (drop 3 (rev s)))
      else s)"

definition sanitize :: "string \<Rightarrow> string" where
  "sanitize text =
     replace_trailing_fence
       (replace_leading ''```'' (replace_leading ''```json'' (trim text)))"

text \<open>
  The \<open>try\<close> around \<open>JSON.parse\<close>: a parse error gives the empty array. Where the model
  cannot read the text (an escape beyond \<open>\u00ff\<close>) the result is left unspecified, so
  that nothing is proved about it.
\<close>

definition safeJsonParse :: "string \<Rightarrow> json" where
  "safeJsonParse text =
     (case JSON_parse (sanitize text) of
        Some v \<Rightarrow> v
      | None \<Rightarrow> if wide_escape_free (sanitize text) then JArray [] else undefined)"

subsection \<open>The backend behind \<open>fetch\<close>\<close>

text \<open>
  A request carries the prompt and the JSON-mode flag; the model name, the \<open>stream\<close>
  flag and the options of the request body are constants of the source. Of a response
  the source reads \<open>ok\<close>, \<open>status\<close>, \<open>text()\<close> and \<open>json()\<close>; the last two may throw.

  The backend is any function from the requests sent so far (the last one is the current
  request) to the outcome of \<open>fetch\<close>: it may answer the same prompt differently at
  different times. The list of requests is the state that the service threads through
  its calls, and it records every call made.
\<close>

record request =
  req_prompt :: string
  req_jsonMode :: bool

record response =
  resp_ok :: bool
  resp_status :: nat
  resp_text :: "js_error + string"
  resp_json :: "js_error + json"

datatype fetch_result = Rejected js_error | Resolved response

type_synonym backend = "request list \<Rightarrow> fetch_result"

definition OLLAMA_API_URL :: string where
  "OLLAMA_API_URL = ''http://127.0.0.1:11434/api/generate''"

definition OLLAMA_MODEL :: string where
  "OLLAMA_MODEL = ''gpt-oss:20b''"

subsection \<open>\<open>callOllama\<close>\<close>

text \<open>
  \<open>data.response\<close> when it is a string. The test
  \<open>!data || typeof data.response !== 'string'\<close> fails only for an object with a string
  member \<open>response\<close> (of repeated members the last one counts): \<open>null\<close> is falsy, and
  primitives and arrays have no such property.
\<close>

fun data_response :: "json \<Rightarrow> string option" where
  "data_response (JObject members) =
     (case map_of (rev members) ''response'' of
        Some (JString s) \<Rightarrow> Some s
      | _ \<Rightarrow> None)"
| "data_response v = None"

text \<open>The body of the \<open>try\<close> block, given the outcome of \<open>fetch\<close>.\<close>

definition callOllama_try :: "fetch_result \<Rightarrow> js_error + string" where
  \<open>callOllama_try outcome =
     (case outcome of
        Rejected e \<Rightarrow> Inl e
      | Resolved response \<Rightarrow>
          if \<not> resp_ok response then
            (case resp_text response of
               Inl e \<Rightarrow> Inl e
             | Inr errorText \<Rightarrow>
                 Inl (OtherError (''Ollama API Error ('' @ decimal (resp_status response)
                                  @ ''): '' @ errorText)))
          else
            (case resp_json response of
               Inl e \<Rightarrow> Inl e
             | Inr data \<Rightarrow>
                 (case data_response data of
                    None \<Rightarrow> Inl (OtherError ''Invalid response format from Ollama'')
                  | Some s \<Rightarrow> Inr s)))\<close>

definition connection_failed_message :: string where
  \<open>connection_failed_message =
     ''Connection Failed: Could not reach Ollama at '' @ OLLAMA_API_URL @ ''.\<newline>\<newline>'' @
     ''POSSIBLE CAUSES & FIXES:\<newline>'' @
     ''1. Ollama is not running.\<newline>'' @
     ''   -> Fix: Start Ollama in your terminal.\<newline>\<newline>'' @
     ''2. CORS is blocking the browser request.\<newline>'' @
     ''   -> Fix: Run one of these commands to allow browser access:\<newline>\<newline>'' @
     ''   Mac/Linux:\<newline>'' @
     ''   OLLAMA_ORIGINS="*" ollama serve\<newline>\<newline>'' @
     ''   Windows (PowerShell):\<newline>'' @
     ''   $env:OLLAMA_ORIGINS="*"; ollama serve\<newline>\<newline>'' @
     ''   Windows (Command Prompt):\<newline>'' @
     ''   set OLLAMA_ORIGINS=* && ollama serve\<newline>\<newline>'' @
     ''3. The model '' @ [CHR 0x27] @ OLLAMA_MODEL @ [CHR 0x27] @ '' is not pulled.\<newline>'' @
     ''   -> Fix: Run: ollama pull '' @ OLLAMA_MODEL\<close>

text \<open>
  \<open>isNetworkError\<close>: a \<open>TypeError\<close>, or an error whose message mentions \<open>fetch\<close> or
  \<open>Network\<close>.
\<close>

definition isNetworkError :: "js_error \<Rightarrow> bool" where
  "isNetworkError error \<longleftrightarrow>
     is_TypeError error
     \<or> str_includes (message error) ''fetch'' \<or> str_includes (message error) ''Network''"

text \<open>The \<open>catch\<close> block.\<close>

definition callOllama_catch :: "js_error \<Rightarrow> js_error" where
  "callOllama_catch error =
     (if is_OllamaConnectionError error then error
      else if isNetworkError error then OllamaConnectionError connection_failed_message
      else OtherError (''Failed to connect to Ollama: '' @ message error))"

definition callOllama ::
  "backend \<Rightarrow> string \<Rightarrow> bool \<Rightarrow> request list \<Rightarrow> (js_error + string) \<times> request list" where
  "callOllama bk prompt jsonMode log =
     (let log' = log @ [\<lparr>req_prompt = prompt, req_jsonMode = jsonMode\<rparr>]
      in (case callOllama_try (bk log') of
            Inr s \<Rightarrow> Inr s
          | Inl error \<Rightarrow> Inl (callOllama_catch error),
          log'))"

subsection \<open>\<open>extractSectionsFromDocument\<close>\<close>

definition section_prompt :: "string \<Rightarrow> string" where
  \<open>section_prompt page =
     ''\<newline>      Analyze the following page of a document. Identify and extract all distinct, self-contained logical sections or requirements from this text.\<newline>'' @
     ''      Return a valid JSON array of strings, where each string is the exact text of a section you found.\<newline>'' @
     ''      If no complete sections are found on this page, return an empty array [].\<newline>'' @
     ''\<newline>'' @
     ''      Document Page:\<newline>'' @
     ''      ---\<newline>'' @
     ''      '' @ page @ ''\<newline>'' @
     ''      ---\<newline>'' @
     ''    ''\<close>

fun elements :: "json \<Rightarrow> json list" where
  "elements (JArray xs) = xs"
| "elements v = []"

text \<open>
  The loop over the pages, with the accumulated \<open>allSections\<close>. The declared element
  type \<open>string\<close> is not checked when the program runs: the elements are whatever the
  parsed array holds.
\<close>

fun extractSections_loop ::
  "backend \<Rightarrow> string list \<Rightarrow> json list \<Rightarrow> request list
     \<Rightarrow> (js_error + json list) \<times> request list" where
  "extractSections_loop bk [] allSections log = (Inr allSections, log)"
| "extractSections_loop bk (page # pages) allSections log =
     (case callOllama bk (section_prompt page) True log of
        (Inr responseText, log') \<Rightarrow>
          (let sectionsOnPage = safeJsonParse responseText
           in extractSections_loop bk pages
                (if isArray sectionsOnPage then allSections @ elements sectionsOnPage
                 else allSections)
                log')
      | (Inl error, log') \<Rightarrow>
          if is_OllamaConnectionError error then (Inl error, log')
          else extractSections_loop bk pages allSections log')"

definition extractSectionsFromDocument ::
  "backend \<Rightarrow> string list \<Rightarrow> request list \<Rightarrow> (js_error + json list) \<times> request list" where
  "extractSectionsFromDocument bk documentPages log =
     extractSections_loop bk documentPages [] log"

subsection \<open>\<open>findMatchingSection\<close>\<close>

text \<open>
  A template literal turns the section into a string. For a string that is the string
  itself; the other cases are JavaScript's \<open>ToString\<close>: an array prints its elements
  separated by commas (\<open>null\<close> as nothing), an object prints as \<open>[object Object]\<close>
  unless a member named \<open>toString\<close> hides the inherited method, in which case the
  conversion throws a \<open>TypeError\<close>. The text of a number is a function \<open>nts\<close> of its
  lexeme, which the model takes as a parameter.
\<close>

fun first_error :: "(js_error + 'a) list \<Rightarrow> js_error + 'a list" where
  "first_error [] = Inr []"
| "first_error (Inl e # rs) = Inl e"
| "first_error (Inr x # rs) = (case first_error rs of Inl e \<Rightarrow> Inl e | Inr xs \<Rightarrow> Inr (x # xs))"

fun ToString :: "(string \<Rightarrow> string) \<Rightarrow> json \<Rightarrow> js_error + string" where
  "ToString nts JNull = Inr ''null''"
| "ToString nts (JBool b) = Inr (if b then ''true'' else ''false'')"
| "ToString nts (JNumber l) = Inr (nts l)"
| "ToString nts (JString s) = Inr s"
| "ToString nts (JArray xs) =
     (case first_error (map (\<lambda>x. if x = JNull then Inr [] else ToString nts x) xs) of
        Inl e \<Rightarrow> Inl e
      | Inr ss \<Rightarrow> Inr (join ss '',''))"
| "ToString nts (JObject members) =
     (if ''toString'' \<in> fst ` set members
      then Inl (TypeError ''Cannot convert object to primitive value'')
      else Inr ''[object Object]'')"

definition relevance_prompt :: "string \<Rightarrow> string \<Rightarrow> string" where
  \<open>relevance_prompt rfpSection page =
     ''\<newline>      RFP Requirement: "'' @ rfpSection @ ''"\<newline>'' @
     ''      \<newline>'' @
     ''      Proposal Text Snippet: "'' @ page @ ''"\<newline>'' @
     ''      \<newline>'' @
     ''      Does the Proposal Text Snippet likely contain the specific answer to the RFP Requirement?\<newline>'' @
     ''      Respond with only "YES" or "NO".\<newline>'' @
     ''    ''\<close>

definition extractionPrompt :: "string \<Rightarrow> string \<Rightarrow> string" where
  \<open>extractionPrompt rfpSection combinedRelevantText =
     ''\<newline>    You will be given a specific requirement from an RFP and a block of relevant text from a proposal.\<newline>'' @
     ''    Your task is to extract the single, complete, and exact section from the proposal text that directly answers the RFP requirement.\<newline>'' @
     ''    Return only the text of the proposal section, with no extra commentary.\<newline>'' @
     ''\<newline>'' @
     ''    RFP Requirement:\<newline>'' @
     ''    ---\<newline>'' @
     ''    '' @ rfpSection @ ''\<newline>'' @
     ''    ---\<newline>'' @
     ''\<newline>'' @
     ''    Relevant Proposal Text:\<newline>'' @
     ''    ---\<newline>'' @
     ''    '' @ combinedRelevantText @ ''\<newline>'' @
     ''    ---\<newline>'' @
     ''  ''\<close>

text \<open>
  Step 1, the search: the loop over the proposal pages with the accumulated
  \<open>relevantPages\<close>. The prompt is built outside the \<open>try\<close>, so a failing conversion of
  the section leaves the function.
\<close>

fun relevance_loop ::
  "(string \<Rightarrow> string) \<Rightarrow> backend \<Rightarrow> json \<Rightarrow> string list \<Rightarrow> string list \<Rightarrow> request list
     \<Rightarrow> (js_error + string list) \<times> request list" where
  "relevance_loop nts bk rfpSection [] relevantPages log = (Inr relevantPages, log)"
| "relevance_loop nts bk rfpSection (page # pages) relevantPages log =
     (case ToString nts rfpSection of
        Inl e \<Rightarrow> (Inl e, log)
      | Inr section_text \<Rightarrow>
          (case callOllama bk (relevance_prompt section_text page) False log of
             (Inr responseText, log') \<Rightarrow>
               relevance_loop nts bk rfpSection pages
                 (if str_includes (toUpperCase (trim responseText)) (code_units ''YES'')
                  then relevantPages @ [page] else relevantPages)
                 log'
           | (Inl error, log') \<Rightarrow>
               if is_OllamaConnectionError error then (Inl error, log')
               else relevance_loop nts bk rfpSection pages relevantPages log'))"

text \<open>
  Step 2, the extraction; \<open>None\<close> is the source's \<open>null\<close>. \<open>responseText.trim() || null\<close>
  is \<open>null\<close> for the empty string.
\<close>

definition findMatchingSection ::
  "(string \<Rightarrow> string) \<Rightarrow> backend \<Rightarrow> json \<Rightarrow> string list \<Rightarrow> request list
     \<Rightarrow> (js_error + string option) \<times> request list" where
  "findMatchingSection nts bk rfpSection proposalPages log =
     (case relevance_loop nts bk rfpSection proposalPages [] log of
        (Inl e, log') \<Rightarrow> (Inl e, log')
      | (Inr relevantPages, log') \<Rightarrow>
          if length relevantPages = 0 then (Inr None, log')
          else
            (let combinedRelevantText =
                   join relevantPages ''\<newline>\<newline>---\<newline>\<newline>''
             in case ToString nts rfpSection of
                  Inl e \<Rightarrow> (Inl e, log')
                | Inr section_text \<Rightarrow>
                    (case callOllama bk (extractionPrompt section_text combinedRelevantText)
                            False log' of
                       (Inr responseText, log'') \<Rightarrow>
                         (Inr (if trim responseText = [] then None
                               else Some (trim responseText)),
                          log'')
                     | (Inl error, log'') \<Rightarrow>
                         if is_OllamaConnectionError error then (Inl error, log'')
                         else (Inr None, log''))))"

section \<open>The pager: \<open>textToPages\<close> (components/Loader.tsx)\<close>

text \<open>
  The loop \<open>for (let i = 0; i < text.length; i += chunkSize) pages.push(...)\<close>, first
  with an array that can grow without bound. Nothing in the source bounds the number of
  iterations, so this loop is a partial function: the value \<open>None\<close> is a run that never
  leaves the loop.
\<close>

partial_function (option) textToPages_loop ::
  "string \<Rightarrow> int \<Rightarrow> int \<Rightarrow> string list \<Rightarrow> string list option" where
  "textToPages_loop text chunkSize i pages =
     (if i < int (length text)
      then textToPages_loop text chunkSize (i + chunkSize)
             (pages @ [substring text i (i + chunkSize)])
      else Some pages)"

declare textToPages_loop.simps [code]

definition textToPages :: "string \<Rightarrow> int \<Rightarrow> string list option" where
  "textToPages text chunkSize = textToPages_loop text chunkSize 0 []"

definition PAGE_CHUNK_SIZE :: int where
  "PAGE_CHUNK_SIZE = 10000"

text \<open>
  A JavaScript array cannot grow without bound. \<open>Array.prototype.push\<close> sets the length
  of the array, and setting it to more than \<open>2\<^sup>3\<^sup>2 - 1\<close> throws the \<open>RangeError\<close>
  \<open>Invalid array length\<close>; an engine may give up at a smaller length. The second model
  of the loop takes the greatest length \<open>max_length\<close> that the array can reach as a
  parameter: \<open>push\<close> on an array of that length throws. A \<open>RangeError\<close> is an \<open>Error\<close>
  that is neither an \<open>OllamaConnectionError\<close> nor a \<open>TypeError\<close>. Every run of this loop
  ends: each iteration adds a page, and the array holds at most \<open>max_length\<close> of them.
\<close>

definition MAX_ARRAY_LENGTH :: nat where
  "MAX_ARRAY_LENGTH = 4294967295"

function textToPages_bounded_loop ::
  "nat \<Rightarrow> string \<Rightarrow> int \<Rightarrow> int \<Rightarrow> string list \<Rightarrow> js_error + string list" where
  "textToPages_bounded_loop max_length text chunkSize i pages =
     (if i < int (length text)
      then if length pages < max_length
           then textToPages_bounded_loop max_length text chunkSize (i + chunkSize)
                  (pages @ [substring text i (i + chunkSize)])
           else Inl (OtherError ''Invalid array length'')
      else Inr pages)"
  by pat_completeness auto

termination
  by (relation "measure (\<lambda>(max_length, text, chunkSize, i, pages). max_length - length pages)")
     auto

declare textToPages_bounded_loop.simps [simp del]

definition textToPages_bounded :: "nat \<Rightarrow> string \<Rightarrow> int \<Rightarrow> js_error + string list" where
  "textToPages_bounded max_length text chunkSize =
     textToPages_bounded_loop max_length text chunkSize 0 []"

section \<open>\<open>JSON.stringify\<close> of the dataset entries\<close>

text \<open>
  The values that the program serialises are built from strings, arrays and objects only.
  \<open>JSON.stringify\<close> writes them without white space; in a string it escapes the quote,
  the backslash and the control characters.
\<close>

datatype js_value =
    VString string
  | VArray "js_value list"
  | VObject "(string \<times> js_value) list"

definition hex_digits :: string where
  "hex_digits = ''0123456789abcdef''"

definition hex4 :: "nat \<Rightarrow> string" where
  "hex4 n = map (\<lambda>k. hex_digits ! ((n div 16 ^ k) mod 16)) [3, 2, 1, 0]"

definition JSON_quote_char :: "char \<Rightarrow> string" where
  "JSON_quote_char c =
     (case map_of [(CHR 0x08, ''b''), (CHR 0x09, ''t''), (CHR 0x0A, ''n''), (CHR 0x0C, ''f''),
                   (CHR 0x0D, ''r''), (CHR 0x22, [CHR 0x22]), (CHR 0x5C, [CHR 0x5C])] c of
        Some e \<Rightarrow> CHR 0x5C # e
      | None \<Rightarrow> if (of_char c :: nat) < 32 then CHR 0x5C # CHR ''u'' # hex4 (of_char c)
                else [c])"

definition JSON_quote :: "string \<Rightarrow> string" where
  "JSON_quote s = CHR 0x22 # concat (map JSON_quote_char s) @ [CHR 0x22]"

fun JSON_stringify :: "js_value \<Rightarrow> string" where
  "JSON_stringify (VString s) = JSON_quote s"
| "JSON_stringify (VArray xs) = ''['' @ join (map JSON_stringify xs) '','' @ '']''"
| "JSON_stringify (VObject members) =
     ''{'' @ join (map (\<lambda>(k, v). JSON_quote k @ '':'' @ JSON_stringify v) members) '',''
     @ ''}''"

section \<open>The application (components/Loader.tsx)\<close>

datatype AppStep = Upload | Download

record FileContent =
  name :: string
  content :: string

text \<open>
  A document pair; \<open>'f\<close> is the type of the browser's \<open>File\<close> objects, and \<open>None\<close> is the
  source's \<open>null\<close>.
\<close>

record 'f DocumentPair =
  pair_id :: nat
  rfp :: "'f list"
  proposal :: "'f option"

text \<open>The state of the component, one field for each \<open>useState\<close>; the download URL is
  represented by the text of the \<open>Blob\<close> it names.\<close>

record app_state =
  step :: AppStep
  isLoading :: bool
  loadingMessage :: string
  error :: "string option"
  downloadUrl :: "string option"
  generatedEntries :: nat

record chunk =
  rfp_section :: json
  proposal_section :: string

definition completedPairs :: "'f DocumentPair list \<Rightarrow> 'f DocumentPair list" where
  "completedPairs documentPairs =
     filter (\<lambda>p. length (rfp p) > 0 \<and> proposal p \<noteq> None) documentPairs"

text \<open>
  Step 3 for one pair: the loop over the sections of the RFP. A section is kept when
  \<open>proposalSection\<close> is truthy, that is neither \<open>null\<close> nor the empty string.
\<close>

fun match_loop ::
  "(string \<Rightarrow> string) \<Rightarrow> backend \<Rightarrow> json list \<Rightarrow> string list \<Rightarrow> chunk list \<Rightarrow> request list
     \<Rightarrow> (js_error + chunk list) \<times> request list" where
  "match_loop nts bk [] proposalPages allFinalChunks log = (Inr allFinalChunks, log)"
| "match_loop nts bk (rfpSection # rfpSections) proposalPages allFinalChunks log =
     (case findMatchingSection nts bk rfpSection proposalPages log of
        (Inl e, log') \<Rightarrow> (Inl e, log')
      | (Inr proposalSection, log') \<Rightarrow>
          match_loop nts bk rfpSections proposalPages
            (case proposalSection of
               None \<Rightarrow> allFinalChunks
             | Some s \<Rightarrow>
                 if s \<noteq> []
                 then allFinalChunks
                        @ [\<lparr>rfp_section = rfpSection, proposal_section = s\<rparr>]
                 else allFinalChunks)
            log')"

text \<open>
  The loop over the completed pairs. Reading a file is the work of \<open>readFileContent\<close>,
  which decodes it with the browser and with external libraries; the model takes it as
  the parameter \<open>rd\<close>, a function from a file to the decoded content or to the error the
  promise is rejected with. Of several failing RFP files the first in the list is
  reported. A result \<open>None\<close> is a run that does not return (the pager's loop).
\<close>

definition combinedRfpContent :: "FileContent list \<Rightarrow> string" where
  \<open>combinedRfpContent rfpContents =
     join (map (\<lambda>c. ''--- RFP File: '' @ name c @ '' ---\<newline>'' @ content c) rfpContents)
          ''\<newline>\<newline>''\<close>

fun pairs_loop ::
  "(string \<Rightarrow> string) \<Rightarrow> ('f \<Rightarrow> js_error + FileContent) \<Rightarrow> backend
     \<Rightarrow> 'f DocumentPair list \<Rightarrow> chunk list \<Rightarrow> request list
     \<Rightarrow> ((js_error + chunk list) \<times> request list) option" where
  "pairs_loop nts rd bk [] allFinalChunks log = Some (Inr allFinalChunks, log)"
| "pairs_loop nts rd bk (pair # pairs) allFinalChunks log =
     (case first_error (map rd (rfp pair)) of
        Inl e \<Rightarrow> Some (Inl e, log)
      | Inr rfpContents \<Rightarrow>
          (case proposal pair of
             None \<Rightarrow> Some (Inl (TypeError ''Cannot read properties of null''), log)
           | Some proposalFile \<Rightarrow>
               (case rd proposalFile of
                  Inl e \<Rightarrow> Some (Inl e, log)
                | Inr proposalContent \<Rightarrow>
                    (case textToPages (combinedRfpContent rfpContents) PAGE_CHUNK_SIZE of
                       None \<Rightarrow> None
                     | Some rfpPages \<Rightarrow>
                         (case textToPages (content proposalContent) PAGE_CHUNK_SIZE of
                            None \<Rightarrow> None
                          | Some proposalPages \<Rightarrow>
                              (case extractSectionsFromDocument bk rfpPages log of
                                 (Inl e, log') \<Rightarrow> Some (Inl e, log')
                               | (Inr rfpSections, log') \<Rightarrow>
                                   if length rfpSections = 0
                                   then pairs_loop nts rd bk pairs allFinalChunks log'
                                   else
                                     (case match_loop nts bk rfpSections proposalPages
                                             allFinalChunks log' of
                                        (Inl e, log'') \<Rightarrow> Some (Inl e, log'')
                                      | (Inr chunks', log'') \<Rightarrow>
                                          pairs_loop nts rd bk pairs chunks' log'')))))))"

text \<open>The lines of the dataset: one serialised entry for each chunk.\<close>

definition entry :: "string \<Rightarrow> string \<Rightarrow> js_value" where
  "entry userContent assistantContent =
     VObject [(''messages'',
       VArray [VObject [(''role'', VString ''user''), (''content'', VString userContent)],
               VObject [(''role'', VString ''assistant''),
                        (''content'', VString assistantContent)]])]"

definition user_content :: "string \<Rightarrow> string" where
  "user_content section_text =
     ''Write a proposal section based on this RFP section:\<newline>\<newline>'' @ section_text"

definition jsonlContent :: "(string \<Rightarrow> string) \<Rightarrow> chunk list \<Rightarrow> js_error + string list" where
  "jsonlContent nts allFinalChunks =
     first_error (map (\<lambda>chunk.
         case ToString nts (rfp_section chunk) of
           Inl e \<Rightarrow> Inl e
         | Inr section_text \<Rightarrow>
             Inr (JSON_stringify
                    (entry (user_content section_text) (proposal_section chunk))))
       allFinalChunks)"

text \<open>
  \<open>handleGenerateJsonl\<close>. The first test returns before the \<open>try\<close>; every other path
  runs the \<open>finally\<close> block. The progress messages set while the loop runs are not
  modelled: the \<open>finally\<close> block clears them.
\<close>

definition handleGenerateJsonl ::
  "(string \<Rightarrow> string) \<Rightarrow> ('f \<Rightarrow> js_error + FileContent) \<Rightarrow> backend
     \<Rightarrow> 'f DocumentPair list \<Rightarrow> app_state \<Rightarrow> request list
     \<Rightarrow> (app_state \<times> request list) option" where
  \<open>handleGenerateJsonl nts rd bk documentPairs st log =
     (if length (completedPairs documentPairs) = 0 then
        Some (st\<lparr>error := Some ''Please provide at least one complete RFP and Proposal pair.''\<rparr>,
              log)
      else
        (case pairs_loop nts rd bk (completedPairs documentPairs) [] log of
           None \<Rightarrow> None
         | Some (Inl e, log') \<Rightarrow>
             Some (st\<lparr>error := Some (message e), isLoading := False, loadingMessage := []\<rparr>,
                   log')
         | Some (Inr allFinalChunks, log') \<Rightarrow>
             if length allFinalChunks = 0 then
               Some (st\<lparr>error := Some ''The AI model could not extract any valid sections from your documents. Please check the document content and try again.'',
                        isLoading := False, loadingMessage := []\<rparr>,
                     log')
             else
               (case jsonlContent nts allFinalChunks of
                  Inl e \<Rightarrow>
                    Some (st\<lparr>error := Some (message e), isLoading := False,
                             loadingMessage := []\<rparr>,
                          log')
                | Inr lines \<Rightarrow>
                    Some (st\<lparr>error := None, isLoading := False, loadingMessage := [],
                             downloadUrl := Some (join lines ''\<newline>''),
                             generatedEntries := length lines, step := Download\<rparr>,
                          log'))))\<close>

chapter \<open>Properties\<close>

section \<open>The pager\<close>

subsection \<open>A closed form for the pages (used in proofs only)\<close>

fun chunks :: "nat \<Rightarrow> 'a list \<Rightarrow> 'a list list" where
  "chunks n xs = (if n = 0 \<or> xs = [] then [] else take n xs # chunks n (drop n xs))"

declare chunks.simps [simp del]

lemma chunks_Nil [simp]: "chunks n [] = []"
  by (simp add: chunks.simps)

lemma concat_chunks: "0 < n \<Longrightarrow> concat (chunks n xs) = xs"
proof (induction n xs rule: chunks.induct)
  case (1 n xs)
  then show ?case
    by (subst chunks.simps) auto
qed

lemma chunks_eq_Nil_iff: "0 < n \<Longrightarrow> chunks n xs = [] \<longleftrightarrow> xs = []"
  by (subst chunks.simps) auto

lemma length_chunks_nth:
  "0 < n \<Longrightarrow> Suc k < length (chunks n xs) \<Longrightarrow> length (chunks n xs ! k) = n"
proof (induction n xs arbitrary: k rule: chunks.induct)
  case (1 n xs)
  from "1.prems" have ne: "xs \<noteq> []" by (auto simp: chunks.simps[of n xs])
  with "1.prems" have unfold: "chunks n xs = take n xs # chunks n (drop n xs)"
    by (subst chunks.simps) simp
  from "1.prems" unfold have rest: "chunks n (drop n xs) \<noteq> []" by auto
  then have "drop n xs \<noteq> []" by auto
  then have full: "length (take n xs) = n" by simp
  show ?case
  proof (cases k)
    case 0
    with unfold full show ?thesis by simp
  next
    case (Suc j)
    with "1.prems" unfold have "Suc j < length (chunks n (drop n xs))" by simp
    with "1.IH"[of j] "1.prems" ne have "length (chunks n (drop n xs) ! j) = n" by simp
    with Suc unfold show ?thesis by simp
  qed
qed

lemma chunks_nonempty_bounded:
  "0 < n \<Longrightarrow> p \<in> set (chunks n xs) \<Longrightarrow> p \<noteq> [] \<and> length p \<le> n"
proof (induction n xs rule: chunks.induct)
  case (1 n xs)
  from "1.prems" have ne: "xs \<noteq> []" by (auto simp: chunks.simps[of n xs])
  then have "chunks n xs = take n xs # chunks n (drop n xs)"
    using "1.prems" by (subst chunks.simps) simp
  with "1.prems" have "p = take n xs \<or> p \<in> set (chunks n (drop n xs))"
    by auto
  then show ?case
  proof
    assume "p = take n xs"
    with ne "1.prems" show ?thesis by auto
  next
    assume "p \<in> set (chunks n (drop n xs))"
    with "1.IH" "1.prems" ne show ?thesis by simp
  qed
qed

lemma substring_chunk:
  "i < length s \<Longrightarrow> substring s (int i) (int i + int n) = take n (drop i s)"
  by (auto simp: substring_def Let_def min_def max_def)

lemma textToPages_loop_chunks:
  assumes "0 < n"
  shows "i \<le> length str \<Longrightarrow>
    textToPages_loop str (int n) (int i) pages = Some (pages @ chunks n (drop i str))"
proof (induction "length str - i" arbitrary: i pages rule: less_induct)
  case less
  show ?case
  proof (cases "i < length str")
    case False
    with less.prems show ?thesis
      by (subst textToPages_loop.simps) simp
  next
    case True
    show ?thesis
    proof (cases "i + n \<le> length str")
      case le: True
      have "textToPages_loop str (int n) (int (i + n)) (pages @ [take n (drop i str)])
            = Some ((pages @ [take n (drop i str)]) @ chunks n (drop (i + n) str))"
        using less.hyps[of "i + n"] le True assms by simp
      then show ?thesis using True assms
        by (subst textToPages_loop.simps, subst chunks.simps[of n "drop i str"])
           (simp add: substring_chunk add.commute)
    next
      case gt: False
      have "textToPages_loop str (int n) (int (i + n)) (pages @ [take n (drop i str)])
            = Some (pages @ [take n (drop i str)])"
        using gt by (subst textToPages_loop.simps) simp
      then show ?thesis using True assms gt
        by (subst textToPages_loop.simps, subst chunks.simps[of n "drop i str"])
           (simp add: substring_chunk add.commute)
    qed
  qed
qed

lemma textToPages_chunks:
  "0 < chunkSize \<Longrightarrow> textToPages str chunkSize = Some (chunks (nat chunkSize) str)"
  using textToPages_loop_chunks[of "nat chunkSize" 0 str "[]"]
  by (simp add: textToPages_def)

text \<open>With an array that could grow without bound, the loop would not end for a chunk
  size of zero or less.\<close>

lemma textToPages_loop_Some_imp:
  assumes "textToPages_loop t cs j ps = Some r"
  shows "cs \<le> 0 \<longrightarrow> \<not> j < int (length t)"
proof (rule textToPages_loop.raw_induct
    [where P = "\<lambda>t cs j ps r. cs \<le> 0 \<longrightarrow> \<not> j < int (length t)", OF _ assms])
  fix f t cs j ps r
  assume IH: "\<And>t cs j ps r. f t cs j ps = Some r \<Longrightarrow> cs \<le> 0 \<longrightarrow> \<not> j < int (length t)"
    and step: "(if j < int (length t)
                then f t cs (j + cs) (ps @ [substring t j (j + cs)]) else Some ps) = Some r"
  show "cs \<le> 0 \<longrightarrow> \<not> j < int (length t)"
  proof (intro impI notI)
    assume "cs \<le> 0" "j < int (length t)"
    with step IH[of t cs "j + cs"] show False by auto
  qed
qed

lemma textToPages_loop_diverges:
  "chunkSize \<le> 0 \<Longrightarrow> i < int (length str) \<Longrightarrow> textToPages_loop str chunkSize i pages = None"
  using textToPages_loop_Some_imp[of str chunkSize i pages]
  by (cases "textToPages_loop str chunkSize i pages") auto

subsection \<open>Claims about the pager\<close>

text \<open>
  Claim C4. For every text and every chunk size \<open>n > 0\<close>, \<open>textToPages\<close> returns a
  sequence of pages whose concatenation is the text exactly; every page except possibly
  the last has length exactly \<open>n\<close>; and the empty text gives the empty sequence.
\<close>

theorem textToPages_partition:
  assumes "0 < chunkSize"
  shows "\<exists>pages. textToPages str chunkSize = Some pages
           \<and> concat pages = str
           \<and> (\<forall>k. Suc k < length pages \<longrightarrow> int (length (pages ! k)) = chunkSize)
           \<and> (str = [] \<longrightarrow> pages = [])"
proof -
  let ?n = "nat chunkSize"
  from assms have n: "0 < ?n" by simp
  have "textToPages str chunkSize = Some (chunks ?n str)"
    using assms by (rule textToPages_chunks)
  moreover have "concat (chunks ?n str) = str"
    using n by (rule concat_chunks)
  moreover have "\<forall>k. Suc k < length (chunks ?n str) \<longrightarrow> int (length (chunks ?n str ! k)) = chunkSize"
    using length_chunks_nth[OF n, of _ str] assms by auto
  moreover have "str = [] \<longrightarrow> chunks ?n str = []" by simp
  ultimately show ?thesis by blast
qed

theorem textToPages_partition_witness:
  "(0::int) < 3 \<and> (\<exists>pages. textToPages ''abcdefg'' 3 = Some pages
           \<and> concat pages = ''abcdefg''
           \<and> (\<forall>k. Suc k < length pages \<longrightarrow> int (length (pages ! k)) = 3)
           \<and> (''abcdefg'' = [] \<longrightarrow> pages = []))"
  using textToPages_partition[of 3 "''abcdefg''"] by simp

text \<open>With a bounded array the loop returns the same pages whenever they fit.\<close>

lemma textToPages_bounded_loop_chunks:
  assumes "0 < n"
  shows "i \<le> length str \<Longrightarrow> length pages + length (chunks n (drop i str)) \<le> max_length \<Longrightarrow>
    textToPages_bounded_loop max_length str (int n) (int i) pages
      = Inr (pages @ chunks n (drop i str))"
proof (induction "length str - i" arbitrary: i pages rule: less_induct)
  case less
  show ?case
  proof (cases "i < length str")
    case False
    with less.prems show ?thesis
      by (subst textToPages_bounded_loop.simps) simp
  next
    case True
    then have ne: "drop i str \<noteq> []" by simp
    have unfold: "chunks n (drop i str) = take n (drop i str) # chunks n (drop (i + n) str)"
      using ne assms by (subst chunks.simps) (simp add: add.commute)
    with less.prems have room: "length pages < max_length" by simp
    show ?thesis
    proof (cases "i + n \<le> length str")
      case le: True
      have "textToPages_bounded_loop max_length str (int n) (int (i + n))
              (pages @ [take n (drop i str)])
            = Inr ((pages @ [take n (drop i str)]) @ chunks n (drop (i + n) str))"
        using less.hyps[of "i + n" "pages @ [take n (drop i str)]"] le True assms
          less.prems unfold by simp
      then show ?thesis using True room unfold
        by (subst textToPages_bounded_loop.simps) (simp add: substring_chunk)
    next
      case gt: False
      have "textToPages_bounded_loop max_length str (int n) (int (i + n))
              (pages @ [take n (drop i str)])
            = Inr (pages @ [take n (drop i str)])"
        using gt by (subst textToPages_bounded_loop.simps) simp
      then show ?thesis using True room unfold gt
        by (subst textToPages_bounded_loop.simps) (simp add: substring_chunk)
    qed
  qed
qed

lemma textToPages_bounded_chunks:
  "0 < chunkSize \<Longrightarrow> length (chunks (nat chunkSize) str) \<le> max_length \<Longrightarrow>
     textToPages_bounded max_length str chunkSize = Inr (chunks (nat chunkSize) str)"
  using textToPages_bounded_loop_chunks[of "nat chunkSize" 0 str "[]" max_length]
  by (simp add: textToPages_bounded_def)

text \<open>With a chunk size of zero or less the index never reaches the length of the text:
  the loop goes on until \<open>push\<close> throws.\<close>

lemma textToPages_bounded_loop_throws:
  "chunkSize \<le> 0 \<Longrightarrow> i < int (length str) \<Longrightarrow>
     textToPages_bounded_loop max_length str chunkSize i pages
       = Inl (OtherError ''Invalid array length'')"
proof (induction "max_length - length pages" arbitrary: i pages rule: less_induct)
  case less
  show ?case
  proof (cases "length pages < max_length")
    case False
    with less.prems show ?thesis
      by (subst textToPages_bounded_loop.simps) simp
  next
    case True
    have "textToPages_bounded_loop max_length str chunkSize (i + chunkSize)
            (pages @ [substring str i (i + chunkSize)])
          = Inl (OtherError ''Invalid array length'')"
      using less.hyps[of "pages @ [substring str i (i + chunkSize)]" "i + chunkSize"]
        True less.prems by simp
    with True less.prems show ?thesis
      by (subst textToPages_bounded_loop.simps) simp
  qed
qed

lemma textToPages_bounded_throws:
  "chunkSize \<le> 0 \<Longrightarrow> str \<noteq> [] \<Longrightarrow>
     textToPages_bounded max_length str chunkSize = Inl (OtherError ''Invalid array length'')"
  by (simp add: textToPages_bounded_def textToPages_bounded_loop_throws)

text \<open>
  Claim C9 says that for a chunk size of zero or less and a non-empty text the loop never
  terminates. It does: the array of pages grows by one element in each iteration, and
  \<open>push\<close> throws a \<open>RangeError\<close> once the array has reached its greatest length. For the
  text \<open>a\<close> and the chunk size \<open>0\<close> the run ends with that error.
\<close>

theorem textToPages_zero_chunkSize_throws:
  "textToPages_bounded MAX_ARRAY_LENGTH ''a'' 0 = Inl (OtherError ''Invalid array length'')"
  by (rule textToPages_bounded_throws) simp_all

text \<open>
  Claim C9, amended. For every text and every chunk size greater than zero the pager
  terminates (the index grows by the chunk size in each iteration, so the loop runs once
  per page) and returns its pages, also with a bounded array that has room for them. For
  a chunk size of zero or less and a non-empty text the condition of the loop never
  becomes false, so the pager never returns pages: whatever the greatest length of an
  array is, the run ends with the \<open>RangeError\<close> \<open>Invalid array length\<close> thrown by \<open>push\<close>.
\<close>

theorem textToPages_returns_iff_positive:
  "(0 < chunkSize \<longrightarrow>
      (\<exists>pages. textToPages str chunkSize = Some pages
         \<and> (length pages \<le> max_length \<longrightarrow>
              textToPages_bounded max_length str chunkSize = Inr pages)))
   \<and> (chunkSize \<le> 0 \<and> str \<noteq> [] \<longrightarrow>
        textToPages_bounded max_length str chunkSize
          = Inl (OtherError ''Invalid array length''))"
proof (intro conjI impI)
  assume "0 < chunkSize"
  then show "\<exists>pages. textToPages str chunkSize = Some pages
         \<and> (length pages \<le> max_length \<longrightarrow>
              textToPages_bounded max_length str chunkSize = Inr pages)"
    by (simp add: textToPages_chunks textToPages_bounded_chunks)
next
  assume "chunkSize \<le> 0 \<and> str \<noteq> []"
  then show "textToPages_bounded max_length str chunkSize
               = Inl (OtherError ''Invalid array length'')"
    by (simp add: textToPages_bounded_throws)
qed

theorem textToPages_returns_iff_positive_witness:
  "((0::int) < 3 \<and> textToPages ''abcdefg'' 3 = Some [''abc'', ''def'', ''g'']
      \<and> textToPages_bounded 3 ''abcdefg'' 3 = Inr [''abc'', ''def'', ''g''])
   \<and> ((-1::int) \<le> 0 \<and> ''abc'' \<noteq> []
      \<and> textToPages_bounded 3 ''abc'' (-1) = Inl (OtherError ''Invalid array length''))"
proof -
  have pages: "textToPages ''abcdefg'' 3 = Some [''abc'', ''def'', ''g'']"
    by (simp add: textToPages_chunks chunks.simps)
  from textToPages_returns_iff_positive[of 3 "''abcdefg''" 3]
       textToPages_returns_iff_positive[of "-1" "''abc''" 3] pages
  show ?thesis by simp
qed

section \<open>The response parser\<close>

subsection \<open>Characters after the last token\<close>

text \<open>
  A character is \<open>neutral\<close> when it can be part of no number and of no literal name and is
  not a quotation mark: white space and the backtick are neutral. The lexers read the
  same token from a text when neutral characters are put after it.
\<close>

definition neutral :: "char \<Rightarrow> bool" where
  "neutral c \<longleftrightarrow> c \<notin> set ''0123456789.eE+-truefalsn'' \<and> c \<noteq> CHR 0x22"










lemma neutral_facts:
  assumes "neutral c"
  shows "c \<noteq> CHR ''e''" "c \<noteq> CHR ''E''" "c \<noteq> CHR ''+''" "c \<noteq> CHR ''-''"
    "c \<noteq> CHR ''.''" "c \<noteq> CHR ''0''" "\<not> is_digit c" "c \<noteq> CHR 0x22"
    "c \<noteq> CHR ''t''" "c \<noteq> CHR ''f''" "c \<noteq> CHR ''n''"
  using assms by (auto simp: neutral_def is_digit_def)

lemma takeWhile_digit_neutral_Cons:
  "neutral c \<Longrightarrow> takeWhile is_digit (c # w) = []"
  by (simp add: neutral_facts)











subsection \<open>Tokens of a text followed by neutral characters\<close>














subsection \<open>Trimming\<close>















subsection \<open>Removing the fence\<close>














section \<open>The language-model client\<close>

lemma callOllama_log:
  "snd (callOllama bk prompt jsonMode log) = log @ [\<lparr>req_prompt = prompt, req_jsonMode = jsonMode\<rparr>]"
  by (simp add: callOllama_def Let_def)

lemma callOllama_logD:
  "callOllama bk prompt jsonMode log = (r, log')
     \<Longrightarrow> log' = log @ [\<lparr>req_prompt = prompt, req_jsonMode = jsonMode\<rparr>]"
  using callOllama_log[of bk prompt jsonMode log] by simp

lemma invalid_format_not_network:
  "\<not> isNetworkError (OtherError ''Invalid response format from Ollama'')"
  by (simp add: isNetworkError_def)

text \<open>A backend that is reachable and answers with status 200 and the payload \<open>{}\<close>.\<close>

definition missing_field_backend :: backend where
  "missing_field_backend log =
     Resolved \<lparr>resp_ok = True, resp_status = 200, resp_text = Inr ''{}'',
               resp_json = Inr (JObject [])\<rparr>"

text \<open>
  Claim C2 says that a success response whose payload lacks the string field \<open>response\<close>
  makes \<open>callOllama\<close> raise an \<open>OllamaConnectionError\<close>. It does not: the error thrown
  in the \<open>try\<close> block is a plain \<open>Error\<close> whose message mentions neither \<open>fetch\<close> nor
  \<open>Network\<close>, so the \<open>catch\<close> block wraps it in another plain \<open>Error\<close>.
\<close>

theorem callOllama_missing_field_counterexample:
  "fst (callOllama missing_field_backend ''hello'' False [])
     = Inl (OtherError ''Failed to connect to Ollama: Invalid response format from Ollama'')
   \<and> fst (callOllama missing_field_backend ''hello'' False [])
     \<noteq> Inl (OllamaConnectionError connection_failed_message)"
  by (simp add: callOllama_def callOllama_try_def callOllama_catch_def
      missing_field_backend_def invalid_format_not_network Let_def)

text \<open>
  Claim C2, amended. When the backend is reachable and returns a success status but the
  payload has no string field \<open>response\<close>, \<open>callOllama\<close> raises a generic error with the
  message \<open>Failed to connect to Ollama: Invalid response format from Ollama\<close>, which is
  not an \<open>OllamaConnectionError\<close>; the request has been sent.
\<close>

theorem callOllama_missing_field_generic_error:
  assumes "bk (log @ [\<lparr>req_prompt = prompt, req_jsonMode = jsonMode\<rparr>]) = Resolved r"
    and "resp_ok r"
    and "resp_json r = Inr payload"
    and "data_response payload = None"
  shows "callOllama bk prompt jsonMode log
           = (Inl (OtherError
                 ''Failed to connect to Ollama: Invalid response format from Ollama''),
              log @ [\<lparr>req_prompt = prompt, req_jsonMode = jsonMode\<rparr>])
         \<and> \<not> is_OllamaConnectionError (OtherError
                 ''Failed to connect to Ollama: Invalid response format from Ollama'')"
  using assms
  by (simp add: callOllama_def callOllama_try_def callOllama_catch_def
      invalid_format_not_network Let_def)

theorem callOllama_missing_field_generic_error_witness:
  "callOllama missing_field_backend ''hello'' False []
     = (Inl (OtherError ''Failed to connect to Ollama: Invalid response format from Ollama''),
        [\<lparr>req_prompt = ''hello'', req_jsonMode = False\<rparr>])
   \<and> \<not> is_OllamaConnectionError (OtherError
           ''Failed to connect to Ollama: Invalid response format from Ollama'')"
  using callOllama_missing_field_generic_error
    [of missing_field_backend "[]" "''hello''" False
        "\<lparr>resp_ok = True, resp_status = 200, resp_text = Inr ''{}'',
          resp_json = Inr (JObject [])\<rparr>" "JObject []"]
  by (simp add: missing_field_backend_def)

section \<open>The section extractor\<close>

lemma extractSections_loop_append:
  "extractSections_loop bk (xs @ ys) acc log =
     (case extractSections_loop bk xs acc log of
        (Inr acc', log') \<Rightarrow> extractSections_loop bk ys acc' log'
      | (Inl e, log') \<Rightarrow> (Inl e, log'))"
proof (induction xs arbitrary: acc log)
  case Nil
  show ?case by simp
next
  case (Cons page xs)
  show ?case
  proof (cases "callOllama bk (section_prompt page) True log")
    case (Pair r log')
    then show ?thesis
      using Cons.IH by (cases r) (simp_all add: Let_def)
  qed
qed

text \<open>Two backends for the examples: the second call fails, with an HTTP error status
  in the first and with a network error in the second.\<close>

definition array_response :: fetch_result where
  \<open>array_response =
     Resolved \<lparr>resp_ok = True, resp_status = 200, resp_text = Inr [],
               resp_json = Inr (JObject [(''response'', JString ''["s"]'')])\<rparr>\<close>

definition second_call_status_500 :: backend where
  "second_call_status_500 log =
     (if length log = 2
      then Resolved \<lparr>resp_ok = False, resp_status = 500, resp_text = Inr ''overloaded'',
                     resp_json = Inr JNull\<rparr>
      else array_response)"

definition second_call_unreachable :: backend where
  "second_call_unreachable log =
     (if length log = 2 then Rejected (TypeError ''Failed to fetch'') else array_response)"

text \<open>
  Claim C1. Let the pages before some page have been processed without a connectivity
  error, and let the call for that page throw. If the error is not an
  \<open>OllamaConnectionError\<close>, the page contributes nothing and the extraction goes on
  with the next page from the sections gathered so far; if it is one, the extraction
  ends with that error at once, and the request for the failing page is the last request
  sent.
\<close>

theorem extractSections_error_on_page:
  assumes "extractSectionsFromDocument bk before log = (Inr sections, log1)"
    and "callOllama bk (section_prompt page) True log1 = (Inl e, log2)"
  shows "(\<not> is_OllamaConnectionError e \<longrightarrow>
            extractSectionsFromDocument bk (before @ page # rest) log
              = extractSections_loop bk rest sections log2)
         \<and> (is_OllamaConnectionError e \<longrightarrow>
            extractSectionsFromDocument bk (before @ page # rest) log = (Inl e, log2))
         \<and> log2 = log1 @ [\<lparr>req_prompt = section_prompt page, req_jsonMode = True\<rparr>]"
proof -
  have "extractSectionsFromDocument bk (before @ page # rest) log
          = extractSections_loop bk (page # rest) sections log1"
    using assms(1)
    by (simp add: extractSectionsFromDocument_def extractSections_loop_append)
  with assms(2) callOllama_logD[OF assms(2)] show ?thesis
    by simp
qed

definition section_request :: "string \<Rightarrow> request" where
  "section_request page = \<lparr>req_prompt = section_prompt page, req_jsonMode = True\<rparr>"

theorem extractSections_error_on_page_witness:
  "extractSectionsFromDocument second_call_status_500 [''p1'', ''p2'', ''p3''] []
     = (Inr [JString ''s'', JString ''s''],
        [section_request ''p1'', section_request ''p2'', section_request ''p3''])
   \<and> extractSectionsFromDocument second_call_unreachable [''p1'', ''p2'', ''p3''] []
     = (Inl (OllamaConnectionError connection_failed_message),
        [section_request ''p1'', section_request ''p2''])"
proof -
  have first_500:
    "extractSectionsFromDocument second_call_status_500 [''p1''] []
       = (Inr [JString ''s''], [section_request ''p1''])"
    by code_simp
  have second_500:
    "callOllama second_call_status_500 (section_prompt ''p2'') True [section_request ''p1'']
       = (Inl (OtherError ''Failed to connect to Ollama: Ollama API Error (500): overloaded''),
          [section_request ''p1'', section_request ''p2''])"
    by code_simp
  have rest_500:
    "extractSections_loop second_call_status_500 [''p3''] [JString ''s'']
         [section_request ''p1'', section_request ''p2'']
       = (Inr [JString ''s'', JString ''s''],
          [section_request ''p1'', section_request ''p2'', section_request ''p3''])"
    by code_simp
  have first_un:
    "extractSectionsFromDocument second_call_unreachable [''p1''] []
       = (Inr [JString ''s''], [section_request ''p1''])"
    by code_simp
  have second_un:
    "callOllama second_call_unreachable (section_prompt ''p2'') True [section_request ''p1'']
       = (Inl (OllamaConnectionError connection_failed_message),
          [section_request ''p1'', section_request ''p2''])"
    by code_simp
  from extractSections_error_on_page[OF first_500 second_500, of "[''p3'']"]
       extractSections_error_on_page[OF first_un second_un, of "[''p3'']"]
       rest_500
  show ?thesis by simp
qed





section \<open>The section matcher\<close>

subsection \<open>Substring search and case\<close>

lemma take_length_eq_iff: "take (length t) s = t \<longleftrightarrow> (\<exists>q. s = t @ q)"
proof
  assume "take (length t) s = t"
  then have "s = t @ drop (length t) s"
    by (metis append_take_drop_id)
  then show "\<exists>q. s = t @ q" ..
next
  assume "\<exists>q. s = t @ q"
  then show "take (length t) s = t" by auto
qed

lemma str_includes_iff: "str_includes s t \<longleftrightarrow> (\<exists>p q. s = p @ t @ q)"
proof (induction s)
  case Nil
  show ?case by auto
next
  case (Cons c cs)
  show ?case
  proof
    assume "str_includes (c # cs) t"
    then consider "take (length t) (c # cs) = t" | "str_includes cs t" by auto
    then show "\<exists>p q. c # cs = p @ t @ q"
    proof cases
      case 1
      then obtain q where "c # cs = t @ q" using take_length_eq_iff by blast
      then have "c # cs = [] @ t @ q" by simp
      then show ?thesis by blast
    next
      case 2
      with Cons.IH obtain p q where "cs = p @ t @ q" by blast
      then have "c # cs = (c # p) @ t @ q" by simp
      then show ?thesis by blast
    qed
  next
    assume "\<exists>p q. c # cs = p @ t @ q"
    then obtain p q where pq: "c # cs = p @ t @ q" by blast
    show "str_includes (c # cs) t"
    proof (cases p)
      case Nil
      with pq have "take (length t) (c # cs) = t"
        using take_length_eq_iff[of t "c # cs"] by auto
      then show ?thesis by simp
    next
      case (Cons a p')
      with pq have "cs = p' @ t @ q" by simp
      with Cons.IH have "str_includes cs t" by blast
      then show ?thesis by simp
    qed
  qed
qed

lemma of_char_letters:
  "(of_char c :: nat) = 121 \<longleftrightarrow> c = CHR ''y''"
  "(of_char c :: nat) = 89 \<longleftrightarrow> c = CHR ''Y''"
  "(of_char c :: nat) = 101 \<longleftrightarrow> c = CHR ''e''"
  "(of_char c :: nat) = 69 \<longleftrightarrow> c = CHR ''E''"
  "(of_char c :: nat) = 115 \<longleftrightarrow> c = CHR ''s''"
  "(of_char c :: nat) = 83 \<longleftrightarrow> c = CHR ''S''"
  "(of_char c :: nat) = 223 \<longleftrightarrow> c = CHR 0xDF"
  using of_char_eq_iff[where ?'a = nat, of c "CHR ''y''"]
        of_char_eq_iff[where ?'a = nat, of c "CHR ''Y''"]
        of_char_eq_iff[where ?'a = nat, of c "CHR ''e''"]
        of_char_eq_iff[where ?'a = nat, of c "CHR ''E''"]
        of_char_eq_iff[where ?'a = nat, of c "CHR ''s''"]
        of_char_eq_iff[where ?'a = nat, of c "CHR ''S''"]
        of_char_eq_iff[where ?'a = nat, of c "CHR 0xDF"]
  by simp_all

lemma toUpperCase_unit_shape:
  "(\<exists>a. toUpperCase_unit c = [a]) \<or> (c = CHR 0xDF \<and> toUpperCase_unit c = [83, 83])"
  by (simp add: toUpperCase_unit_def Let_def of_char_letters[symmetric])

lemma toUpperCase_unit_Y:
  "toUpperCase_unit c = [89] \<longleftrightarrow> c = CHR ''y'' \<or> c = CHR ''Y''"
  by (auto simp: toUpperCase_unit_def Let_def of_char_letters[symmetric])

lemma toUpperCase_unit_E:
  "toUpperCase_unit c = [69] \<longleftrightarrow> c = CHR ''e'' \<or> c = CHR ''E''"
  by (auto simp: toUpperCase_unit_def Let_def of_char_letters[symmetric])

lemma toUpperCase_unit_S:
  "toUpperCase_unit c = [83] \<longleftrightarrow> c = CHR ''s'' \<or> c = CHR ''S''"
  by (auto simp: toUpperCase_unit_def Let_def of_char_letters[symmetric])

lemma toUpperCase_unit_sharp_s: "toUpperCase_unit (CHR 0xDF) = [83, 83]"
  by (simp add: toUpperCase_unit_def)

lemma toUpperCase_Nil [simp]: "toUpperCase [] = []"
  by (simp add: toUpperCase_def)

lemma toUpperCase_Cons: "toUpperCase (c # cs) = toUpperCase_unit c @ toUpperCase cs"
  by (simp add: toUpperCase_def)

lemma toUpperCase_append: "toUpperCase (s @ t) = toUpperCase s @ toUpperCase t"
  by (simp add: toUpperCase_def)

lemma code_units_YES: "code_units ''YES'' = [89, 69, 83]"
  by (simp add: code_units_def)

text \<open>
  The policy in the words of the specification: the text contains the letters Y, E, S
  next to each other, each in either case.
\<close>

definition contains_YES_ignoring_case :: "string \<Rightarrow> bool" where
  "contains_YES_ignoring_case s \<longleftrightarrow>
     (\<exists>before y e s' after.
        s = before @ [y, e, s'] @ after
        \<and> (y = CHR ''y'' \<or> y = CHR ''Y'')
        \<and> (e = CHR ''e'' \<or> e = CHR ''E'')
        \<and> (s' = CHR ''s'' \<or> s' = CHR ''S''))"

text \<open>
  What the source tests: the same, except that in the place of the S the sharp s
  (code unit \<open>0xDF\<close>), whose upper case is \<open>SS\<close>, will do as well.
\<close>

definition contains_YES_upper_cased :: "string \<Rightarrow> bool" where
  "contains_YES_upper_cased s \<longleftrightarrow>
     (\<exists>before y e s' after.
        s = before @ [y, e, s'] @ after
        \<and> (y = CHR ''y'' \<or> y = CHR ''Y'')
        \<and> (e = CHR ''e'' \<or> e = CHR ''E'')
        \<and> (s' = CHR ''s'' \<or> s' = CHR ''S'' \<or> s' = CHR 0xDF))"

lemma contains_YES_upper_cased_Cons:
  assumes "contains_YES_upper_cased cs"
  shows "contains_YES_upper_cased (c # cs)"
proof -
  from assms obtain before y e s' after where "cs = before @ [y, e, s'] @ after"
    and letters: "y = CHR ''y'' \<or> y = CHR ''Y''" "e = CHR ''e'' \<or> e = CHR ''E''"
      "s' = CHR ''s'' \<or> s' = CHR ''S'' \<or> s' = CHR 0xDF"
    unfolding contains_YES_upper_cased_def by blast
  then have "c # cs = (c # before) @ [y, e, s'] @ after" by simp
  with letters show ?thesis
    unfolding contains_YES_upper_cased_def by blast
qed

lemma toUpperCase_YES_head:
  assumes "toUpperCase s = 89 # 69 # 83 # q"
  shows "contains_YES_upper_cased s"
proof -
  from assms obtain y s1 where s: "s = y # s1" by (cases s) auto
  with assms have 1: "toUpperCase_unit y @ toUpperCase s1 = 89 # 69 # 83 # q"
    by (simp add: toUpperCase_Cons)
  with toUpperCase_unit_shape[of y] have y: "toUpperCase_unit y = [89]"
    and r1: "toUpperCase s1 = 69 # 83 # q"
    by auto
  from r1 obtain e s2 where s1: "s1 = e # s2" by (cases s1) auto
  with r1 have 2: "toUpperCase_unit e @ toUpperCase s2 = 69 # 83 # q"
    by (simp add: toUpperCase_Cons)
  with toUpperCase_unit_shape[of e] have e: "toUpperCase_unit e = [69]"
    and r2: "toUpperCase s2 = 83 # q"
    by auto
  from r2 obtain z s3 where s2: "s2 = z # s3" by (cases s2) auto
  with r2 have 3: "toUpperCase_unit z @ toUpperCase s3 = 83 # q"
    by (simp add: toUpperCase_Cons)
  with toUpperCase_unit_shape[of z] have z: "toUpperCase_unit z = [83] \<or> z = CHR 0xDF"
    by auto
  from s s1 s2 have "s = [] @ [y, e, z] @ s3" by simp
  moreover from y have "y = CHR ''y'' \<or> y = CHR ''Y''" by (simp add: toUpperCase_unit_Y)
  moreover from e have "e = CHR ''e'' \<or> e = CHR ''E''" by (simp add: toUpperCase_unit_E)
  moreover from z have "z = CHR ''s'' \<or> z = CHR ''S'' \<or> z = CHR 0xDF"
    by (auto simp: toUpperCase_unit_S)
  ultimately show ?thesis
    unfolding contains_YES_upper_cased_def by blast
qed

lemma toUpperCase_YES_inside:
  "toUpperCase s = p @ [89, 69, 83] @ q \<Longrightarrow> contains_YES_upper_cased s"
proof (induction s arbitrary: p)
  case Nil
  then show ?case by simp
next
  case (Cons c cs)
  then have eq: "toUpperCase_unit c @ toUpperCase cs = p @ [89, 69, 83] @ q"
    by (simp add: toUpperCase_Cons)
  show ?case
  proof (cases p)
    case Nil
    with Cons.prems have "toUpperCase (c # cs) = 89 # 69 # 83 # q" by simp
    then show ?thesis by (rule toUpperCase_YES_head)
  next
    case p: (Cons a p')
    from toUpperCase_unit_shape[of c] show ?thesis
    proof
      assume "\<exists>b. toUpperCase_unit c = [b]"
      with eq p have "toUpperCase cs = p' @ [89, 69, 83] @ q" by auto
      then have "contains_YES_upper_cased cs" by (rule Cons.IH)
      then show ?thesis by (rule contains_YES_upper_cased_Cons)
    next
      assume "c = CHR 0xDF \<and> toUpperCase_unit c = [83, 83]"
      then have "toUpperCase_unit c = [83, 83]" ..
      with eq p have tail: "83 # toUpperCase cs = p' @ [89, 69, 83] @ q" by simp
      then obtain p'' where "p' = 83 # p''" by (cases p') auto
      with tail have "toUpperCase cs = p'' @ [89, 69, 83] @ q" by simp
      then have "contains_YES_upper_cased cs" by (rule Cons.IH)
      then show ?thesis by (rule contains_YES_upper_cased_Cons)
    qed
  qed
qed

lemma includes_YES_iff:
  "str_includes (toUpperCase s) (code_units ''YES'') \<longleftrightarrow> contains_YES_upper_cased s"
proof
  assume "str_includes (toUpperCase s) (code_units ''YES'')"
  then obtain p q where "toUpperCase s = p @ [89, 69, 83] @ q"
    unfolding str_includes_iff code_units_YES by blast
  then show "contains_YES_upper_cased s" by (rule toUpperCase_YES_inside)
next
  assume "contains_YES_upper_cased s"
  then obtain before y e s' after where s: "s = before @ [y, e, s'] @ after"
    and y: "y = CHR ''y'' \<or> y = CHR ''Y''" and e: "e = CHR ''e'' \<or> e = CHR ''E''"
    and s': "s' = CHR ''s'' \<or> s' = CHR ''S'' \<or> s' = CHR 0xDF"
    unfolding contains_YES_upper_cased_def by blast
  from y have uy: "toUpperCase_unit y = [89]" by (simp add: toUpperCase_unit_Y)
  from e have ue: "toUpperCase_unit e = [69]" by (simp add: toUpperCase_unit_E)
  from s' obtain t where us: "toUpperCase_unit s' = 83 # t"
    using toUpperCase_unit_S[of s'] toUpperCase_unit_sharp_s by auto
  from s uy ue us
  have "toUpperCase s = toUpperCase before @ [89, 69, 83] @ (t @ toUpperCase after)"
    by (simp add: toUpperCase_append toUpperCase_Cons)
  then show "str_includes (toUpperCase s) (code_units ''YES'')"
    unfolding str_includes_iff code_units_YES by blast
qed

text \<open>Without a sharp s in the text the two policies are the same.\<close>

lemma set_trim_subset: "set (trim s) \<subseteq> set s"
proof -
  have "set (trim s) \<subseteq> set (dropWhile is_js_whitespace s)"
    using set_dropWhileD[of _ is_js_whitespace "rev (dropWhile is_js_whitespace s)"]
    by (auto simp: trim_def)
  also have "\<dots> \<subseteq> set s"
    using set_dropWhileD[of _ is_js_whitespace s] by auto
  finally show ?thesis .
qed

lemma contains_YES_without_sharp_s:
  assumes "CHR 0xDF \<notin> set s"
  shows "contains_YES_upper_cased s \<longleftrightarrow> contains_YES_ignoring_case s"
proof
  assume "contains_YES_upper_cased s"
  then obtain before y e s' after where s: "s = before @ [y, e, s'] @ after"
    and y: "y = CHR ''y'' \<or> y = CHR ''Y''" and e: "e = CHR ''e'' \<or> e = CHR ''E''"
    and s': "s' = CHR ''s'' \<or> s' = CHR ''S'' \<or> s' = CHR 0xDF"
    unfolding contains_YES_upper_cased_def by blast
  from s assms have "s' \<noteq> CHR 0xDF" by auto
  with s' have "s' = CHR ''s'' \<or> s' = CHR ''S''" by simp
  with s y e show "contains_YES_ignoring_case s"
    unfolding contains_YES_ignoring_case_def by blast
next
  assume "contains_YES_ignoring_case s"
  then show "contains_YES_upper_cased s"
    unfolding contains_YES_ignoring_case_def contains_YES_upper_cased_def by blast
qed

text \<open>A test for the policy of the specification, for the examples.\<close>

fun matches_YES_ignoring_case :: "string \<Rightarrow> bool" where
  "matches_YES_ignoring_case (y # e # s' # after) =
     ((y \<in> set ''yY'' \<and> e \<in> set ''eE'' \<and> s' \<in> set ''sS'')
      \<or> matches_YES_ignoring_case (e # s' # after))"
| "matches_YES_ignoring_case s = False"

lemma contains_YES_ignoring_case_iff:
  "contains_YES_ignoring_case s \<longleftrightarrow> matches_YES_ignoring_case s"
proof (induction s rule: matches_YES_ignoring_case.induct)
  case (1 y e s' after)
  have "contains_YES_ignoring_case (y # e # s' # after)
          \<longleftrightarrow> (y \<in> set ''yY'' \<and> e \<in> set ''eE'' \<and> s' \<in> set ''sS'')
               \<or> contains_YES_ignoring_case (e # s' # after)"
  proof
    assume "contains_YES_ignoring_case (y # e # s' # after)"
    then obtain before a b c rest where eq: "y # e # s' # after = before @ [a, b, c] @ rest"
      and letters: "a = CHR ''y'' \<or> a = CHR ''Y''" "b = CHR ''e'' \<or> b = CHR ''E''"
        "c = CHR ''s'' \<or> c = CHR ''S''"
      unfolding contains_YES_ignoring_case_def by blast
    show "(y \<in> set ''yY'' \<and> e \<in> set ''eE'' \<and> s' \<in> set ''sS'')
            \<or> contains_YES_ignoring_case (e # s' # after)"
    proof (cases before)
      case Nil
      with eq letters show ?thesis by auto
    next
      case (Cons h before')
      with eq have "e # s' # after = before' @ [a, b, c] @ rest" by simp
      with letters have "contains_YES_ignoring_case (e # s' # after)"
        unfolding contains_YES_ignoring_case_def by blast
      then show ?thesis ..
    qed
  next
    assume "(y \<in> set ''yY'' \<and> e \<in> set ''eE'' \<and> s' \<in> set ''sS'')
              \<or> contains_YES_ignoring_case (e # s' # after)"
    then show "contains_YES_ignoring_case (y # e # s' # after)"
    proof
      assume "y \<in> set ''yY'' \<and> e \<in> set ''eE'' \<and> s' \<in> set ''sS''"
      moreover have "y # e # s' # after = [] @ [y, e, s'] @ after" by simp
      ultimately show ?thesis
        unfolding contains_YES_ignoring_case_def by (metis insert_iff list.simps(15) empty_iff empty_set)
    next
      assume "contains_YES_ignoring_case (e # s' # after)"
      then obtain before a b c rest where "e # s' # after = before @ [a, b, c] @ rest"
        and letters: "a = CHR ''y'' \<or> a = CHR ''Y''" "b = CHR ''e'' \<or> b = CHR ''E''"
          "c = CHR ''s'' \<or> c = CHR ''S''"
        unfolding contains_YES_ignoring_case_def by blast
      then have "y # e # s' # after = (y # before) @ [a, b, c] @ rest" by simp
      with letters show ?thesis
        unfolding contains_YES_ignoring_case_def by blast
    qed
  qed
  with "1.IH" show ?case by simp
qed (auto simp: contains_YES_ignoring_case_def append_eq_Cons_conv)

subsection \<open>The requests of the relevance phase\<close>

definition relevance_request :: "string \<Rightarrow> string \<Rightarrow> request" where
  "relevance_request section_text page =
     \<lparr>req_prompt = relevance_prompt section_text page, req_jsonMode = False\<rparr>"

definition relevance_requests :: "(string \<Rightarrow> string) \<Rightarrow> json \<Rightarrow> string list \<Rightarrow> request list" where
  "relevance_requests nts rfpSection pages =
     (case ToString nts rfpSection of
        Inr section_text \<Rightarrow> map (relevance_request section_text) pages
      | Inl e \<Rightarrow> [])"

lemma relevance_loop_log:
  "relevance_loop nts bk rfpSection pages relevantPages log = (Inr result, log')
     \<Longrightarrow> log' = log @ relevance_requests nts rfpSection pages"
proof (induction pages arbitrary: relevantPages log)
  case Nil
  then show ?case
    by (simp add: relevance_requests_def split: sum.splits)
next
  case (Cons page pages)
  from Cons.prems obtain section_text where t: "ToString nts rfpSection = Inr section_text"
    by (cases "ToString nts rfpSection") auto
  obtain r log1 where call:
    "callOllama bk (relevance_prompt section_text page) False log = (r, log1)"
    by (cases "callOllama bk (relevance_prompt section_text page) False log")
  then have log1: "log1 = log @ [relevance_request section_text page]"
    by (simp add: callOllama_logD relevance_request_def)
  from Cons.prems t call obtain rel where
    "relevance_loop nts bk rfpSection pages rel log1 = (Inr result, log')"
    by (cases r) (auto split: if_splits)
  then have "log' = log1 @ relevance_requests nts rfpSection pages"
    by (rule Cons.IH)
  with log1 t show ?case
    by (simp add: relevance_requests_def)
qed

lemma relevance_prompt_neq_extractionPrompt:
  "relevance_prompt a page \<noteq> extractionPrompt b combined"
  by (simp add: relevance_prompt_def extractionPrompt_def)

lemma relevance_requests_no_extraction:
  "r \<in> set (relevance_requests nts rfpSection pages)
     \<Longrightarrow> req_prompt r \<noteq> extractionPrompt b combined"
  by (auto simp: relevance_requests_def relevance_request_def
      relevance_prompt_neq_extractionPrompt split: sum.splits)

subsection \<open>Claims about the section matcher\<close>

definition text_response :: "string \<Rightarrow> fetch_result" where
  "text_response s =
     Resolved \<lparr>resp_ok = True, resp_status = 200, resp_text = Inr [],
               resp_json = Inr (JObject [(''response'', JString s)])\<rparr>"

text \<open>Backends for the examples: one always answers NO; one answers YES to the first
  call and white space to the second.\<close>

definition always_no_backend :: backend where
  "always_no_backend log = text_response ''NO''"

definition yes_then_blank_backend :: backend where
  "yes_then_blank_backend log =
     (if length log = 1 then text_response ''YES'' else text_response [CHR 0x20, CHR 0x0A])"

text \<open>
  Claim C3. For every section and every sequence of proposal pages: if the relevance
  phase judges no page relevant, \<open>findMatchingSection\<close> returns \<open>null\<close>, and the
  requests it has sent are the relevance requests of the pages, none of which is an
  extraction request; and if the extraction call answers with a text that is empty
  after trimming, the result is \<open>null\<close> too.
\<close>

theorem findMatchingSection_absent:
  "(relevance_loop nts bk rfpSection proposalPages [] log = (Inr [], log1)
      \<longrightarrow> findMatchingSection nts bk rfpSection proposalPages log = (Inr None, log1)
          \<and> log1 = log @ relevance_requests nts rfpSection proposalPages
          \<and> (\<forall>r \<in> set (relevance_requests nts rfpSection proposalPages).
                \<forall>t combined. req_prompt r \<noteq> extractionPrompt t combined))
   \<and> (relevance_loop nts bk rfpSection proposalPages [] log = (Inr relevantPages, log1)
        \<and> relevantPages \<noteq> []
        \<and> ToString nts rfpSection = Inr section_text
        \<and> callOllama bk
             (extractionPrompt section_text
                (join relevantPages ''\<newline>\<newline>---\<newline>\<newline>''))
             False log1 = (Inr responseText, log2)
        \<and> trim responseText = []
      \<longrightarrow> findMatchingSection nts bk rfpSection proposalPages log = (Inr None, log2))"
proof (intro conjI impI)
  assume none: "relevance_loop nts bk rfpSection proposalPages [] log = (Inr [], log1)"
  then show "findMatchingSection nts bk rfpSection proposalPages log = (Inr None, log1)"
    by (simp add: findMatchingSection_def)
  from none show "log1 = log @ relevance_requests nts rfpSection proposalPages"
    by (rule relevance_loop_log)
  show "\<forall>r \<in> set (relevance_requests nts rfpSection proposalPages).
          \<forall>t combined. req_prompt r \<noteq> extractionPrompt t combined"
    using relevance_requests_no_extraction by blast
next
  assume "relevance_loop nts bk rfpSection proposalPages [] log = (Inr relevantPages, log1)
        \<and> relevantPages \<noteq> []
        \<and> ToString nts rfpSection = Inr section_text
        \<and> callOllama bk
             (extractionPrompt section_text
                (join relevantPages ''\<newline>\<newline>---\<newline>\<newline>''))
             False log1 = (Inr responseText, log2)
        \<and> trim responseText = []"
  then show "findMatchingSection nts bk rfpSection proposalPages log = (Inr None, log2)"
    by (simp add: findMatchingSection_def Let_def)
qed

theorem findMatchingSection_absent_witness:
  "findMatchingSection id always_no_backend (JString ''requirement'') [''p1'', ''p2''] []
     = (Inr None, [relevance_request ''requirement'' ''p1'',
                   relevance_request ''requirement'' ''p2''])
   \<and> findMatchingSection id yes_then_blank_backend (JString ''requirement'') [''p1''] []
     = (Inr None,
        [relevance_request ''requirement'' ''p1'',
         \<lparr>req_prompt = extractionPrompt ''requirement'' ''p1'', req_jsonMode = False\<rparr>])"
proof -
  have no_pages:
    "relevance_loop id always_no_backend (JString ''requirement'') [''p1'', ''p2''] [] []
       = (Inr [], [relevance_request ''requirement'' ''p1'',
                   relevance_request ''requirement'' ''p2''])"
    by code_simp
  have one_page:
    "relevance_loop id yes_then_blank_backend (JString ''requirement'') [''p1''] [] []
       = (Inr [''p1''], [relevance_request ''requirement'' ''p1''])"
    by code_simp
  have blank:
    "callOllama yes_then_blank_backend
       (extractionPrompt ''requirement'' (join [''p1''] ''\<newline>\<newline>---\<newline>\<newline>''))
       False [relevance_request ''requirement'' ''p1'']
     = (Inr [CHR 0x20, CHR 0x0A],
        [relevance_request ''requirement'' ''p1'',
         \<lparr>req_prompt = extractionPrompt ''requirement'' ''p1'', req_jsonMode = False\<rparr>])"
    by code_simp
  have trimmed: "trim [CHR 0x20, CHR 0x0A] = []"
    by code_simp
  from findMatchingSection_absent
         [of id always_no_backend "JString ''requirement''" "[''p1'', ''p2'']" "[]"
             "[relevance_request ''requirement'' ''p1'',
               relevance_request ''requirement'' ''p2'']"]
       no_pages
  have first: "findMatchingSection id always_no_backend (JString ''requirement'')
                 [''p1'', ''p2''] []
     = (Inr None, [relevance_request ''requirement'' ''p1'',
                   relevance_request ''requirement'' ''p2''])"
    by blast
  from findMatchingSection_absent
         [of id yes_then_blank_backend "JString ''requirement''" "[''p1'']" "[]"
             "[relevance_request ''requirement'' ''p1'']" "[''p1'']"
             "''requirement''" "[CHR 0x20, CHR 0x0A]"
             "[relevance_request ''requirement'' ''p1'',
               \<lparr>req_prompt = extractionPrompt ''requirement'' ''p1'',
                req_jsonMode = False\<rparr>]"]
       one_page blank trimmed
  have second: "findMatchingSection id yes_then_blank_backend (JString ''requirement'')
                  [''p1''] []
     = (Inr None,
        [relevance_request ''requirement'' ''p1'',
         \<lparr>req_prompt = extractionPrompt ''requirement'' ''p1'', req_jsonMode = False\<rparr>])"
    by simp
  from first second show ?thesis ..
qed

text \<open>Backends whose model begins its answer with the word YESTERDAY, and answers with
  the letters y, e and sharp s.\<close>

definition yesterday_backend :: backend where
  "yesterday_backend log = text_response ''YESTERDAY I read this, the answer is NO''"

definition sharp_s_backend :: backend where
  "sharp_s_backend log = text_response [CHR ''y'', CHR ''e'', CHR 0xDF]"

text \<open>
  Claim C6 says that a page is classified relevant if and only if the trimmed response
  contains YES, compared without regard to case. The response made of the letters y, e and
  sharp s contains neither an S nor an s, yet its page is classified relevant: the
  source compares after \<open>toUpperCase\<close>, which turns the sharp s into \<open>SS\<close>.
\<close>

theorem relevance_sharp_s_counterexample:
  "fst (relevance_loop id sharp_s_backend (JString ''requirement'') [''page''] [] [])
     = Inr [''page'']
   \<and> \<not> contains_YES_ignoring_case (trim [CHR ''y'', CHR ''e'', CHR 0xDF])"
proof
  show "fst (relevance_loop id sharp_s_backend (JString ''requirement'') [''page''] [] [])
     = Inr [''page'']"
    by code_simp
  have "\<not> matches_YES_ignoring_case (trim [CHR ''y'', CHR ''e'', CHR 0xDF])"
    by code_simp
  then show "\<not> contains_YES_ignoring_case (trim [CHR ''y'', CHR ''e'', CHR 0xDF])"
    by (subst contains_YES_ignoring_case_iff)
qed

text \<open>
  Claim C6, amended. In the relevance phase a page is pushed to \<open>relevantPages\<close> if and
  only if the trimmed response, upper-cased by \<open>toUpperCase\<close>, contains YES. For a
  response of code units below 256 that is: if and only if it contains a Y, an E and then
  an S or a sharp s next to each other, each letter in either case. For a response
  without a sharp s this is to contain YES without regard to case; so the response
  \<open>YESTERDAY I read this, the answer is NO\<close> classifies its page as relevant.
\<close>

theorem relevance_iff_upper_cased_contains_YES:
  "(ToString nts rfpSection = Inr section_text
      \<and> callOllama bk (relevance_prompt section_text page) False log = (Inr responseText, log')
    \<longrightarrow> relevance_loop nts bk rfpSection (page # pages) relevantPages log
          = relevance_loop nts bk rfpSection pages
              (if contains_YES_upper_cased (trim responseText)
               then relevantPages @ [page] else relevantPages)
              log')
   \<and> contains_YES_upper_cased (trim responseText)
       = str_includes (toUpperCase (trim responseText)) (code_units ''YES'')
   \<and> (CHR 0xDF \<notin> set responseText
      \<longrightarrow> contains_YES_upper_cased (trim responseText)
            = contains_YES_ignoring_case (trim responseText))
   \<and> contains_YES_ignoring_case (trim ''YESTERDAY I read this, the answer is NO'')
   \<and> fst (relevance_loop id yesterday_backend (JString ''requirement'') [''page''] [] [])
       = Inr [''page'']"
proof (intro conjI impI)
  show "contains_YES_upper_cased (trim responseText)
       = str_includes (toUpperCase (trim responseText)) (code_units ''YES'')"
    by (simp only: includes_YES_iff)
next
  assume "ToString nts rfpSection = Inr section_text
      \<and> callOllama bk (relevance_prompt section_text page) False log = (Inr responseText, log')"
  then show "relevance_loop nts bk rfpSection (page # pages) relevantPages log
          = relevance_loop nts bk rfpSection pages
              (if contains_YES_upper_cased (trim responseText)
               then relevantPages @ [page] else relevantPages)
              log'"
    by (simp add: includes_YES_iff)
next
  assume "CHR 0xDF \<notin> set responseText"
  with set_trim_subset[of responseText] have "CHR 0xDF \<notin> set (trim responseText)"
    by blast
  then show "contains_YES_upper_cased (trim responseText)
               = contains_YES_ignoring_case (trim responseText)"
    by (rule contains_YES_without_sharp_s)
next
  have "matches_YES_ignoring_case (trim ''YESTERDAY I read this, the answer is NO'')"
    by code_simp
  then show "contains_YES_ignoring_case (trim ''YESTERDAY I read this, the answer is NO'')"
    by (subst contains_YES_ignoring_case_iff)
next
  show "fst (relevance_loop id yesterday_backend (JString ''requirement'') [''page''] [] [])
       = Inr [''page'']"
    by code_simp
qed

theorem relevance_iff_upper_cased_contains_YES_witness:
  "relevance_loop id yesterday_backend (JString ''requirement'') [''page'', ''next''] [] []
     = relevance_loop id yesterday_backend (JString ''requirement'') [''next'']
         (if contains_YES_upper_cased (trim ''YESTERDAY I read this, the answer is NO'')
          then [] @ [''page''] else [])
         [relevance_request ''requirement'' ''page'']
   \<and> contains_YES_upper_cased (trim ''YESTERDAY I read this, the answer is NO'')
       = contains_YES_ignoring_case (trim ''YESTERDAY I read this, the answer is NO'')"
proof -
  have call:
    "callOllama yesterday_backend (relevance_prompt ''requirement'' ''page'') False []
       = (Inr ''YESTERDAY I read this, the answer is NO'',
          [relevance_request ''requirement'' ''page''])"
    by code_simp
  have converted: "ToString id (JString ''requirement'') = Inr ''requirement''"
    by simp
  have no_sharp_s: "CHR 0xDF \<notin> set ''YESTERDAY I read this, the answer is NO''"
    by simp
  from call converted no_sharp_s relevance_iff_upper_cased_contains_YES
         [of id "JString ''requirement''" "''requirement''" yesterday_backend "''page''"
             "[]" "''YESTERDAY I read this, the answer is NO''"
             "[relevance_request ''requirement'' ''page'']" "[''next'']" "[]"]
  show ?thesis by blast
qed

section \<open>The application\<close>

subsection \<open>Incomplete pairs\<close>

lemma completedPairs_append:
  "completedPairs (xs @ ys) = completedPairs xs @ completedPairs ys"
  by (simp add: completedPairs_def)

lemma completedPairs_incomplete:
  "length (rfp p) = 0 \<or> proposal p = None \<Longrightarrow> completedPairs (p # ys) = completedPairs ys"
  by (auto simp: completedPairs_def)

lemma textToPages_PAGE_CHUNK_SIZE:
  "textToPages s PAGE_CHUNK_SIZE = Some (chunks 10000 s)"
  using textToPages_chunks[of PAGE_CHUNK_SIZE s] by (simp add: PAGE_CHUNK_SIZE_def)

lemma pairs_loop_returns:
  "\<exists>result. pairs_loop nts rd bk pairs allFinalChunks log = Some result"
proof (induction pairs arbitrary: allFinalChunks log)
  case Nil
  show ?case by simp
next
  case (Cons pair pairs)
  show ?case
  proof (cases "first_error (map rd (rfp pair))")
    case (Inl e)
    then show ?thesis by simp
  next
    case rfpContents: (Inr rfpContents)
    show ?thesis
    proof (cases "proposal pair")
      case None
      with rfpContents show ?thesis by simp
    next
      case (Some proposalFile)
      show ?thesis
      proof (cases "rd proposalFile")
        case (Inl e)
        with rfpContents Some show ?thesis by simp
      next
        case proposalContent: (Inr proposalContent)
        obtain r log' where ex:
          "extractSectionsFromDocument bk (chunks 10000 (combinedRfpContent rfpContents)) log
             = (r, log')"
          by (cases "extractSectionsFromDocument bk
                       (chunks 10000 (combinedRfpContent rfpContents)) log")
        show ?thesis
        proof (cases r)
          case (Inl e)
          with rfpContents Some proposalContent ex show ?thesis
            by (simp add: textToPages_PAGE_CHUNK_SIZE)
        next
          case rfpSections: (Inr rfpSections)
          obtain m log'' where ml:
            "match_loop nts bk rfpSections (chunks 10000 (content proposalContent))
               allFinalChunks log' = (m, log'')"
            by (cases "match_loop nts bk rfpSections (chunks 10000 (content proposalContent))
                         allFinalChunks log'")
          show ?thesis
          proof (cases m)
            case (Inl e)
            with rfpContents Some proposalContent ex rfpSections ml Cons.IH show ?thesis
              by (simp add: textToPages_PAGE_CHUNK_SIZE)
          next
            case (Inr chunks')
            with rfpContents Some proposalContent ex rfpSections ml Cons.IH show ?thesis
              by (simp add: textToPages_PAGE_CHUNK_SIZE)
          qed
        qed
      qed
    qed
  qed
qed

lemma handleGenerateJsonl_returns:
  "\<exists>result. handleGenerateJsonl nts rd bk documentPairs st log = Some result"
proof (cases "length (completedPairs documentPairs) = 0")
  case True
  then show ?thesis by (simp add: handleGenerateJsonl_def)
next
  case False
  obtain r log' where
    "pairs_loop nts rd bk (completedPairs documentPairs) [] log = Some (r, log')"
    using pairs_loop_returns[of nts rd bk "completedPairs documentPairs" "[]" log] by force
  with False show ?thesis
    by (cases r; cases "jsonlContent nts (projr r)")
       (simp_all add: handleGenerateJsonl_def)
qed

text \<open>
  Claim C7. A document pair without RFP files or without a proposal file is excluded
  before the loop: with the pair anywhere in the input, \<open>handleGenerateJsonl\<close> returns,
  and it returns the state and the list of language-model requests that it returns for
  the input without the pair; the pair is not among the completed pairs.
\<close>

theorem incomplete_pair_excluded:
  assumes "length (rfp p) = 0 \<or> proposal p = None"
  shows "handleGenerateJsonl nts rd bk (before @ p # after) st log
           = handleGenerateJsonl nts rd bk (before @ after) st log
         \<and> (\<exists>result. handleGenerateJsonl nts rd bk (before @ p # after) st log = Some result)
         \<and> p \<notin> set (completedPairs (before @ p # after))"
proof (intro conjI)
  have "completedPairs (before @ p # after) = completedPairs (before @ after)"
    using assms by (simp add: completedPairs_append completedPairs_incomplete)
  then show "handleGenerateJsonl nts rd bk (before @ p # after) st log
           = handleGenerateJsonl nts rd bk (before @ after) st log"
    by (simp add: handleGenerateJsonl_def)
  show "\<exists>result. handleGenerateJsonl nts rd bk (before @ p # after) st log = Some result"
    by (rule handleGenerateJsonl_returns)
  show "p \<notin> set (completedPairs (before @ p # after))"
    using assms by (auto simp: completedPairs_def)
qed

text \<open>An example run: one complete pair, whose RFP has one section that the proposal
  answers, and one pair without a proposal.\<close>

definition section_array_text :: string where
  \<open>section_array_text = ''["Section A"]''\<close>

definition scenario_backend :: backend where
  "scenario_backend log =
     (if length log = 1 then text_response section_array_text
      else if length log = 2 then text_response ''YES''
      else text_response ''Answer A'')"

definition read_decoded :: "FileContent \<Rightarrow> js_error + FileContent" where
  "read_decoded file = Inr file"

definition initial_state :: app_state where
  "initial_state =
     \<lparr>step = Upload, isLoading = False, loadingMessage = [], error = None,
      downloadUrl = None, generatedEntries = 0\<rparr>"

definition complete_pair :: "FileContent DocumentPair" where
  "complete_pair =
     \<lparr>pair_id = 1, rfp = [\<lparr>name = ''rfp.txt'', content = ''Section A''\<rparr>],
      proposal = Some \<lparr>name = ''proposal.txt'', content = ''Answer A''\<rparr>\<rparr>"

definition incomplete_pair :: "FileContent DocumentPair" where
  "incomplete_pair =
     \<lparr>pair_id = 2, rfp = [\<lparr>name = ''rfp2.txt'', content = ''Section B''\<rparr>],
      proposal = None\<rparr>"

theorem incomplete_pair_excluded_witness:
  "handleGenerateJsonl id read_decoded scenario_backend
       [incomplete_pair, complete_pair] initial_state []
     = handleGenerateJsonl id read_decoded scenario_backend [complete_pair] initial_state []
   \<and> (\<exists>result. handleGenerateJsonl id read_decoded scenario_backend
                   [incomplete_pair, complete_pair] initial_state [] = Some result)
   \<and> incomplete_pair \<notin> set (completedPairs [incomplete_pair, complete_pair])"
proof -
  have incomplete: "length (rfp incomplete_pair) = 0 \<or> proposal incomplete_pair = None"
    by (simp add: incomplete_pair_def)
  show ?thesis
    by (rule incomplete_pair_excluded
          [OF incomplete, of id read_decoded scenario_backend "[]" "[complete_pair]"
              initial_state "[]", unfolded append_Nil])
qed

subsection \<open>The dataset\<close>

lemma notin_set_join:
  "\<forall>x \<in> set xs. c \<notin> set x \<Longrightarrow> c \<notin> set sep \<Longrightarrow> c \<notin> set (join xs sep)"
  by (induction xs sep rule: join.induct) auto

lemma hex_digits_nth: "hex_digits ! (m mod 16) \<in> set hex_digits"
  by (rule nth_mem) (simp add: hex_digits_def)

lemma newline_notin_hex_digits: "CHR 0x0A \<notin> set hex_digits"
  by (simp add: hex_digits_def)

lemma newline_notin_hex4: "CHR 0x0A \<notin> set (hex4 n)"
proof
  assume "CHR 0x0A \<in> set (hex4 n)"
  then obtain m where "CHR 0x0A = hex_digits ! (m mod 16)"
    unfolding hex4_def by auto
  with hex_digits_nth[of m] newline_notin_hex_digits show False by simp
qed

lemma newline_notin_JSON_quote_char: "CHR 0x0A \<notin> set (JSON_quote_char c)"
  by (auto simp: JSON_quote_char_def newline_notin_hex4 split: option.splits if_splits)

lemma newline_notin_JSON_quote: "CHR 0x0A \<notin> set (JSON_quote s)"
  by (auto simp: JSON_quote_def newline_notin_JSON_quote_char)

text \<open>
  The record of a requirement and its answer as the interface describes it: the JSON
  object with the two messages.
\<close>

definition training_record :: "string \<times> string \<Rightarrow> json" where
  \<open>training_record r =
     JObject [(''messages'',
       JArray [JObject [(''role'', JString ''user''),
                        (''content'',
                         JString (''Write a proposal section based on this RFP section:\<newline>\<newline>''
                                  @ fst r))],
               JObject [(''role'', JString ''assistant''),
                        (''content'', JString (snd r))]])]\<close>

text \<open>
  The line of a record, byte by byte: the JSON text of that object, written without
  white space between its tokens.
\<close>

definition record_line :: "string \<times> string \<Rightarrow> string" where
  \<open>record_line r =
     ''{"messages":[{"role":"user","content":''
     @ JSON_quote (''Write a proposal section based on this RFP section:\<newline>\<newline>'' @ fst r)
     @ ''},{"role":"assistant","content":''
     @ JSON_quote (snd r)
     @ ''}]}''\<close>

lemma JSON_stringify_entry:
  "JSON_stringify (entry (user_content requirement) answer) = record_line (requirement, answer)"
  by (simp add: entry_def record_line_def user_content_def JSON_quote_def JSON_quote_char_def)

lemma newline_notin_record_line: "CHR 0x0A \<notin> set (record_line r)"
  by (simp add: record_line_def newline_notin_JSON_quote)

text \<open>
  Reading back what \<open>JSON.stringify\<close> has written: the lexer decodes a quoted string to
  the string that was quoted, so the line of a record is a JSON text, and its value is
  the record.
\<close>

lemma hex_digit_value_hex_digits: "k < 16 \<Longrightarrow> hex_digit_value (hex_digits ! k) = Some k"
proof -
  assume "k < 16"
  then have "k = 0 \<or> k = 1 \<or> k = 2 \<or> k = 3 \<or> k = 4 \<or> k = 5 \<or> k = 6 \<or> k = 7
    \<or> k = 8 \<or> k = 9 \<or> k = 10 \<or> k = 11 \<or> k = 12 \<or> k = 13 \<or> k = 14 \<or> k = 15"
    by arith
  then show ?thesis
    by (elim disjE) (simp_all add: hex_digits_def hex_digit_value_def upt_rec)
qed

lemma unicode_escape_hex4:
  assumes "n < 256"
  shows "unicode_escape (hex4 n) = Some (char_of n)"
proof -
  have digits: "hex4 n = [hex_digits ! 0, hex_digits ! 0, hex_digits ! (n div 16),
                          hex_digits ! (n mod 16)]"
    using assms by (simp add: hex4_def)
  have "n div 16 < 16" "n mod 16 < 16" using assms by simp_all
  then have "hex_digit_value (hex_digits ! (n div 16)) = Some (n div 16)"
    "hex_digit_value (hex_digits ! (n mod 16)) = Some (n mod 16)"
    "hex_digit_value (hex_digits ! 0) = Some 0"
    by (simp_all add: hex_digit_value_hex_digits)
  with assms show ?thesis
    unfolding digits by simp
qed

lemma length_hex4: "length (hex4 n) = 4"
  by (simp add: hex4_def)

lemma lex_string_JSON_quote_char:
  "lex_string (JSON_quote_char c @ rest) = map_option (apfst ((#) c)) (lex_string rest)"
proof (cases "c \<in> set [CHR 0x08, CHR 0x09, CHR 0x0A, CHR 0x0C, CHR 0x0D, CHR 0x22, CHR 0x5C]")
  case True
  then show ?thesis
    by (auto simp: JSON_quote_char_def simple_escape_def)
next
  case plain: False
  then have table: "JSON_quote_char c
      = (if (of_char c :: nat) < 32 then CHR 0x5C # CHR ''u'' # hex4 (of_char c) else [c])"
    by (simp add: JSON_quote_char_def)
  show ?thesis
  proof (cases "(of_char c :: nat) < 32")
    case True
    then have "unicode_escape (hex4 (of_char c)) = Some c"
      by (simp add: unicode_escape_hex4)
    with True table show ?thesis
      by (simp add: length_hex4)
  next
    case False
    with table plain show ?thesis by simp
  qed
qed

lemma lex_string_quoted:
  "lex_string (concat (map JSON_quote_char s) @ CHR 0x22 # rest) = Some (s, rest)"
  by (induction s) (simp_all add: lex_string_JSON_quote_char)

lemma tokenize_JSON_quote:
  "tokenize (JSON_quote s @ rest) = map_option ((#) (TString s)) (tokenize rest)"
  by (simp add: JSON_quote_def is_json_ws_def punctuation_def lex_string_quoted)

lemma tokenize_punctuation:
  "tokenize (CHR ''{'' # cs) = map_option ((#) TLBrace) (tokenize cs)"
  "tokenize (CHR ''}'' # cs) = map_option ((#) TRBrace) (tokenize cs)"
  "tokenize (CHR ''['' # cs) = map_option ((#) TLBracket) (tokenize cs)"
  "tokenize (CHR '']'' # cs) = map_option ((#) TRBracket) (tokenize cs)"
  "tokenize (CHR '','' # cs) = map_option ((#) TComma) (tokenize cs)"
  "tokenize (CHR '':'' # cs) = map_option ((#) TColon) (tokenize cs)"
  by (simp_all add: is_json_ws_def punctuation_def)

lemma tokenize_JSON_quote_end:
  "tokenize (JSON_quote s) = Some [TString s]"
  using tokenize_JSON_quote[of s "[]"] by simp

lemma tokenize_entry:
  "tokenize (JSON_stringify (entry userContent assistantContent))
     = Some [TLBrace, TString ''messages'', TColon, TLBracket,
             TLBrace, TString ''role'', TColon, TString ''user'', TComma,
                      TString ''content'', TColon, TString userContent, TRBrace,
             TComma,
             TLBrace, TString ''role'', TColon, TString ''assistant'', TComma,
                      TString ''content'', TColon, TString assistantContent, TRBrace,
             TRBracket, TRBrace]"
  by (simp add: entry_def tokenize_JSON_quote tokenize_punctuation del: tokenize.simps(2))

lemma JSON_parse_entry:
  "JSON_parse (JSON_stringify (entry userContent assistantContent))
     = Some (JObject [(''messages'',
         JArray [JObject [(''role'', JString ''user''), (''content'', JString userContent)],
                 JObject [(''role'', JString ''assistant''),
                          (''content'', JString assistantContent)]])])"
  by (simp add: JSON_parse_def tokenize_entry)

lemma JSON_parse_record_line: "JSON_parse (record_line r) = Some (training_record r)"
  using JSON_parse_entry[of "user_content (fst r)" "snd r"]
    JSON_stringify_entry[of "fst r" "snd r"]
  by (simp add: training_record_def user_content_def)

text \<open>The lines of a text, as \<open>text.split('\n')\<close> gives them.\<close>

fun split_lines :: "string \<Rightarrow> string list" where
  "split_lines [] = [[]]"
| "split_lines (c # cs) =
     (if c = CHR 0x0A then [] # split_lines cs
      else (case split_lines cs of l # ls \<Rightarrow> (c # l) # ls | [] \<Rightarrow> [[c]]))"

lemma split_lines_no_newline: "CHR 0x0A \<notin> set l \<Longrightarrow> split_lines l = [l]"
  by (induction l) auto

lemma split_lines_append_newline:
  "CHR 0x0A \<notin> set l \<Longrightarrow> split_lines (l @ CHR 0x0A # rest) = l # split_lines rest"
  by (induction l) auto

lemma split_lines_join:
  "ls \<noteq> [] \<Longrightarrow> \<forall>l \<in> set ls. CHR 0x0A \<notin> set l
     \<Longrightarrow> split_lines (join ls [CHR 0x0A]) = ls"
proof (induction ls "[CHR 0x0A]" rule: join.induct)
  case 1
  then show ?case by simp
next
  case (2 x)
  then show ?case by (simp add: split_lines_no_newline)
next
  case (3 x y ys)
  then show ?case by (simp add: split_lines_append_newline)
qed

lemma first_error_map_Inr: "first_error (map (\<lambda>x. Inr (f x)) xs) = Inr (map f xs)"
  by (induction xs) auto

lemma jsonlContent_strings:
  "jsonlContent nts
     (map (\<lambda>r. \<lparr>rfp_section = JString (fst r), proposal_section = snd r\<rparr>) records)
   = Inr (map record_line records)"
proof -
  have "jsonlContent nts
          (map (\<lambda>r. \<lparr>rfp_section = JString (fst r), proposal_section = snd r\<rparr>) records)
        = first_error (map (\<lambda>r. Inr (record_line r)) records)"
    by (simp add: jsonlContent_def comp_def JSON_stringify_entry)
  then show ?thesis
    by (simp add: first_error_map_Inr)
qed

text \<open>A run with two records: the RFP has two sections, and the answer to the second
  holds a quotation mark and a line feed.\<close>

definition two_sections_text :: string where
  \<open>two_sections_text = ''["Section A", "Section B"]''\<close>

definition quoting_answer :: string where
  \<open>quoting_answer = ''He said "B",\<newline>twice''\<close>

definition two_records_backend :: backend where
  "two_records_backend log =
     (if length log = 1 then text_response two_sections_text
      else if length log = 2 \<or> length log = 4 then text_response ''YES''
      else if length log = 3 then text_response ''Answer A''
      else text_response quoting_answer)"

definition two_records :: "(string \<times> string) list" where
  "two_records = [(''Section A'', ''Answer A''), (''Section B'', quoting_answer)]"

definition two_records_log :: "request list" where
  "two_records_log =
     [section_request (''--- RFP File: rfp.txt ---'' @ [CHR 0x0A] @ ''Section A''),
      relevance_request ''Section A'' ''Answer A'',
      \<lparr>req_prompt = extractionPrompt ''Section A'' ''Answer A'', req_jsonMode = False\<rparr>,
      relevance_request ''Section B'' ''Answer A'',
      \<lparr>req_prompt = extractionPrompt ''Section B'' ''Answer A'', req_jsonMode = False\<rparr>]"

definition two_records_dataset :: string where
  \<open>two_records_dataset =
     ''{"messages":[{"role":"user","content":"Write a proposal section based on this RFP section:''
     @ [CHR 0x5C] @ ''n'' @ [CHR 0x5C] @ ''nSection A"},{"role":"assistant","content":"Answer A"}]}''
     @ [CHR 0x0A] @
     ''{"messages":[{"role":"user","content":"Write a proposal section based on this RFP section:''
     @ [CHR 0x5C] @ ''n'' @ [CHR 0x5C] @ ''nSection B"},{"role":"assistant","content":"He said ''
     @ [CHR 0x5C] @ ''"B'' @ [CHR 0x5C] @ ''",'' @ [CHR 0x5C] @ ''ntwice"}]}''\<close>

lemma two_records_dataset_lines:
  "join (map record_line two_records) [CHR 0x0A] = two_records_dataset"
  by (simp add: two_records_def two_records_dataset_def record_line_def quoting_answer_def
      JSON_quote_def JSON_quote_char_def)

text \<open>
  Claim C8. When the loop over the pairs ends with a non-empty sequence of records whose
  requirements are strings, \<open>handleGenerateJsonl\<close> emits as the dataset one line for
  each record, the lines joined with single line feeds, and counts one entry for each
  record. No line contains a line feed, so splitting the dataset at the line feeds gives
  back the lines, with nothing before, between or after them. Each line is a JSON text:
  parsing the lines gives the records' objects with the two messages, in the order of
  the records; byte by byte a line is that object written without white space.
\<close>

theorem dataset_is_jsonl:
  assumes "pairs_loop nts rd bk (completedPairs documentPairs) [] log
             = Some (Inr allFinalChunks, log')"
    and "allFinalChunks
           = map (\<lambda>r. \<lparr>rfp_section = JString (fst r), proposal_section = snd r\<rparr>) records"
    and "records \<noteq> []"
  shows "\<exists>st' lines. handleGenerateJsonl nts rd bk documentPairs st log = Some (st', log')
           \<and> downloadUrl st' = Some (join lines [CHR 0x0A])
           \<and> generatedEntries st' = length records
           \<and> step st' = Download
           \<and> split_lines (join lines [CHR 0x0A]) = lines
           \<and> map JSON_parse lines = map (\<lambda>r. Some (training_record r)) records
           \<and> lines = map record_line records"
proof -
  have nonempty: "length (completedPairs documentPairs) \<noteq> 0"
  proof
    assume "length (completedPairs documentPairs) = 0"
    with assms(1) have "allFinalChunks = []" by simp
    with assms(2,3) show False by simp
  qed
  have lines: "jsonlContent nts allFinalChunks = Inr (map record_line records)"
    unfolding assms(2) by (rule jsonlContent_strings)
  have split: "split_lines (join (map record_line records) [CHR 0x0A]) = map record_line records"
    using assms(3) by (intro split_lines_join) (auto simp: newline_notin_record_line)
  have parsed: "map JSON_parse (map record_line records)
                  = map (\<lambda>r. Some (training_record r)) records"
    by (simp add: JSON_parse_record_line)
  from assms(2,3) have "length allFinalChunks \<noteq> 0" by simp
  with nonempty assms(1) lines
  have "\<exists>st'. handleGenerateJsonl nts rd bk documentPairs st log = Some (st', log')
           \<and> downloadUrl st' = Some (join (map record_line records) [CHR 0x0A])
           \<and> generatedEntries st' = length records
           \<and> step st' = Download"
    by (simp add: handleGenerateJsonl_def)
  with split parsed show ?thesis by blast
qed

theorem dataset_is_jsonl_witness:
  "\<exists>st' lines. handleGenerateJsonl id read_decoded two_records_backend [complete_pair]
                  initial_state []
            = Some (st', two_records_log)
         \<and> downloadUrl st' = Some (join lines [CHR 0x0A])
         \<and> generatedEntries st' = length two_records
         \<and> step st' = Download
         \<and> split_lines (join lines [CHR 0x0A]) = lines
         \<and> map JSON_parse lines = map (\<lambda>r. Some (training_record r)) two_records
         \<and> lines = map record_line two_records"
proof -
  have run:
    "pairs_loop id read_decoded two_records_backend (completedPairs [complete_pair]) [] []
       = Some (Inr [\<lparr>rfp_section = JString ''Section A'', proposal_section = ''Answer A''\<rparr>,
                    \<lparr>rfp_section = JString ''Section B'',
                     proposal_section = quoting_answer\<rparr>],
               two_records_log)"
    by code_simp
  show ?thesis
    by (rule dataset_is_jsonl[OF run]) (simp_all add: two_records_def)
qed

end
